theory Spec2Isabelle
  imports Main
begin

unbundle bit_operations_syntax

section \<open>The apisets generator (dll/apisets/update.py)\<close>

text \<open>
  A shallow embedding of \<^verbatim>\<open>update.py\<close>: the architecture bit set, the parser of one
  export line, the per-module queries, the two resolution passes, the emission of the
  spec lines and the base addresses of the manifest. Exceptions are values of
  \<open>error\<close>; a function that can raise returns \<open>error + 'a\<close>.
\<close>

datatype error = InvalidSpecError string | AssertionError | IndexError | KeyError

definition FUNCTION_BLACKLIST :: "string list" where
  "FUNCTION_BLACKLIST =
     [''_abs64'', ''_byteswap_uint64'', ''_byteswap_ulong'', ''_byteswap_ushort'',
      ''_rotl64'', ''_rotr64'']"

definition IGNORE_OPTIONS :: "string list" where
  "IGNORE_OPTIONS =
     [''-norelay'', ''-ret16'', ''-ret64'', ''-register'', ''-private'',
      ''-noname'', ''-ordinal'', ''-i386'', ''-arch='', ''-stub'']"

definition ALIAS_DLL :: "string \<rightharpoonup> string" where
  "ALIAS_DLL = map_of
     [(''ucrtbase'', ''msvcrt''), (''kernelbase'', ''kernel32''), (''shcore'', ''shlwapi''),
      (''combase'', ''ole32''), (''cfgmgr32'', ''setupapi''), (''wmi'', ''advapi32'')]"

subsection \<open>Strings\<close>

definition newline :: string where
  "newline = [CHR 0x0A]"

definition isspace_char :: "char \<Rightarrow> bool" where
  "isspace_char c = (c \<in> set [CHR 0x20, CHR 0x09, CHR 0x0A, CHR 0x0B, CHR 0x0C, CHR 0x0D])"

definition isdigit_char :: "char \<Rightarrow> bool" where
  "isdigit_char c = (c \<in> set ''0123456789'')"

text \<open>\<^verbatim>\<open>str.isspace\<close> and \<^verbatim>\<open>str.isdigit\<close>: false on the empty string.\<close>

definition isspace :: "string \<Rightarrow> bool" where
  "isspace s = (s \<noteq> [] \<and> list_all isspace_char s)"

definition isdigit :: "string \<Rightarrow> bool" where
  "isdigit s = (s \<noteq> [] \<and> list_all isdigit_char s)"

definition strip :: "string \<Rightarrow> string" where
  "strip s = rev (dropWhile isspace_char (rev (dropWhile isspace_char s)))"

definition startswith :: "string \<Rightarrow> string \<Rightarrow> bool" where
  "startswith s p = (take (length p) s = p)"

text \<open>\<^verbatim>\<open>s.startswith(tuple)\<close>: some member of the tuple is a prefix.\<close>

definition startswith_any :: "string \<Rightarrow> string list \<Rightarrow> bool" where
  "startswith_any s ps = list_ex (startswith s) ps"

text \<open>\<^verbatim>\<open>s.split(c)\<close>: every occurrence of the separator splits.\<close>

fun split :: "char \<Rightarrow> string \<Rightarrow> string list" where
  "split c [] = [[]]"
| "split c (x # xs) =
     (if x = c then [] # split c xs
      else (case split c xs of [] \<Rightarrow> [[x]] | y # ys \<Rightarrow> (x # y) # ys))"

text \<open>\<^verbatim>\<open>s.split(c, n)\<close>: at most \<open>n\<close> splits, the rest stays in the last piece.\<close>

fun split_max :: "char \<Rightarrow> nat \<Rightarrow> string \<Rightarrow> string list" where
  "split_max c n [] = [[]]"
| "split_max c n (x # xs) =
     (if x = c \<and> 0 < n then [] # split_max c (n - 1) xs
      else (case split_max c n xs of [] \<Rightarrow> [[x]] | y # ys \<Rightarrow> (x # y) # ys))"

text \<open>\<^verbatim>\<open>sep.join(xs)\<close>.\<close>

fun join :: "string \<Rightarrow> string list \<Rightarrow> string" where
  "join sep [] = []"
| "join sep [x] = x"
| "join sep (x # y # ys) = x @ sep @ join sep (y # ys)"

text \<open>
  \<^verbatim>\<open>re.split(r'([\s\(\)#;])', text)\<close>: the text is cut at every separator character
  and, the pattern being a group, each separator is kept as a piece of its own.
\<close>

definition is_separator :: "char \<Rightarrow> bool" where
  "is_separator c = (isspace_char c \<or> c \<in> set ''()#;'')"

fun re_split :: "string \<Rightarrow> string list" where
  "re_split [] = [[]]"
| "re_split (c # cs) =
     (if is_separator c then [] # [c] # re_split cs
      else (case re_split cs of [] \<Rightarrow> [[c]] | t # ts \<Rightarrow> (c # t) # ts))"

text \<open>\<^verbatim>\<open>xs.index(x)\<close>, called only where \<open>x\<close> is in \<open>xs\<close>.\<close>

definition index :: "'a list \<Rightarrow> 'a \<Rightarrow> nat" where
  "index xs x = length (takeWhile (\<lambda>y. y \<noteq> x) xs)"

subsection \<open>class Arch\<close>

datatype Arch = Arch (val: int)

definition Arch_none :: int where "Arch_none = 0"
definition Arch_i386 :: int where "Arch_i386 = 1"
definition Arch_x86_64 :: int where "Arch_x86_64 = 2"
definition Arch_arm :: int where "Arch_arm = 4"
definition Arch_arm64 :: int where "Arch_arm64 = 8"
definition Arch_Any :: int where
  "Arch_Any = Arch_i386 OR Arch_x86_64 OR Arch_arm OR Arch_arm64"

definition FROM_STR :: "string \<rightharpoonup> int" where
  "FROM_STR = map_of
     [(''i386'', Arch_i386), (''x86_64'', Arch_x86_64), (''arm'', Arch_arm),
      (''arm64'', Arch_arm64), (''any'', Arch_Any), (''win32'', Arch_i386),
      (''win64'', Arch_x86_64)]"

definition TO_STR :: "int \<rightharpoonup> string" where
  "TO_STR = map_of
     [(Arch_i386, ''i386''), (Arch_x86_64, ''x86_64''), (Arch_arm, ''arm''),
      (Arch_arm64, ''arm64'')]"

text \<open>
  \<^verbatim>\<open>add\<close>: the values of the comma-separated names are summed (not or-ed) and the sum
  is or-ed into the set; an unknown name is a \<open>KeyError\<close>.
\<close>

fun lookup_all :: "('k \<rightharpoonup> 'v) \<Rightarrow> 'k list \<Rightarrow> error + 'v list" where
  "lookup_all m [] = Inr []"
| "lookup_all m (k # ks) =
     (case m k of None \<Rightarrow> Inl KeyError
      | Some v \<Rightarrow> (case lookup_all m ks of Inl err \<Rightarrow> Inl err | Inr vs \<Rightarrow> Inr (v # vs)))"

definition add :: "Arch \<Rightarrow> string \<Rightarrow> error + Arch" where
  "add a text =
     (case lookup_all FROM_STR (split CHR '','' text) of
        Inl err \<Rightarrow> Inl err
      | Inr vs \<Rightarrow>
          (let v = val a OR sum_list vs
           in if v \<noteq> 0 then Inr (Arch v) else Inl AssertionError))"

definition has :: "Arch \<Rightarrow> int \<Rightarrow> bool" where
  "has a v = (val a AND v \<noteq> 0)"

text \<open>
  \<^verbatim>\<open>to_str\<close> walks the dictionary \<^verbatim>\<open>TO_STR\<close>. The order in which a dictionary
  yields its keys is not fixed by the language, so the keys of \<^verbatim>\<open>TO_STR\<close>, in the
  order of the walk, are the parameter \<open>keys\<close>.
\<close>

definition to_str :: "int list \<Rightarrow> Arch \<Rightarrow> string" where
  "to_str keys a =
     join '','' (map (\<lambda>v. case TO_STR v of None \<Rightarrow> [] | Some s \<Rightarrow> s)
                     (filter (\<lambda>v. v AND val a \<noteq> 0) keys))"

text \<open>\<^verbatim>\<open>__len__\<close>: the number of \<^verbatim>\<open>1\<close> characters of \<^verbatim>\<open>bin(_val)\<close>.\<close>

fun count_ones :: "nat \<Rightarrow> nat" where
  "count_ones n = (if n = 0 then 0 else n mod 2 + count_ones (n div 2))"

declare count_ones.simps [simp del]

definition len :: "Arch \<Rightarrow> nat" where
  "len a = count_ones (nat \<bar>val a\<bar>)"

text \<open>The truth value of an \<open>Arch\<close> in a condition: \<^verbatim>\<open>__len__\<close> is not zero.\<close>

definition truthy :: "Arch \<Rightarrow> bool" where
  "truthy a = (len a \<noteq> 0)"

definition Arch_add :: "Arch \<Rightarrow> Arch \<Rightarrow> Arch" where
  "Arch_add a b = Arch (val a OR val b)"

definition Arch_sub :: "Arch \<Rightarrow> Arch \<Rightarrow> Arch" where
  "Arch_sub a b = Arch (val a AND NOT (val b))"

definition Arch_gt :: "Arch \<Rightarrow> Arch \<Rightarrow> bool" where
  "Arch_gt a b = (val a > val b)"

definition Arch_lt :: "Arch \<Rightarrow> Arch \<Rightarrow> bool" where
  "Arch_lt a b = (val a < val b)"

definition Arch_eq :: "Arch \<Rightarrow> Arch \<Rightarrow> bool" where
  "Arch_eq a b = (val a = val b)"

definition Arch_ne :: "Arch \<Rightarrow> Arch \<Rightarrow> bool" where
  "Arch_ne a b = (\<not> Arch_eq a b)"

subsection \<open>class SpecEntry: the data\<close>

text \<open>
  \<open>spec\<close> is the name of the owning file, the only attribute read through the back
  reference. \<open>forwarder\<close> is \<open>None\<close> where the source holds \<^verbatim>\<open>None\<close> or \<^verbatim>\<open>[]\<close>
  (both false in a condition, and never told apart) and \<open>Some (module, symbol)\<close> where
  it holds the two-element list: \<^verbatim>\<open>init\<close> asserts that length.
\<close>

record SpecEntry =
  spec :: string
  ordinal :: string
  callconv :: "string option"
  name :: string
  arch :: Arch
  forwarder :: "(string \<times> string) option"
  noname :: bool

text \<open>
  \<open>entries\<close> is the list \<^verbatim>\<open>_entries\<close>. The index \<^verbatim>\<open>_functions\<close> holds the same
  objects under their names, which never change after construction, so a lookup in it
  is the sublist of \<open>entries\<close> with that name (see \<open>find_name\<close>).
\<close>

record SpecFile =
  spec_name :: string
  entries :: "SpecEntry list"
  estimate_size :: int

subsection \<open>SpecEntry.init: parsing one line\<close>

text \<open>
  The tokens of a line: the pieces of \<open>re_split\<close> that are neither empty nor
  white space, cut at the first comment token (\<^verbatim>\<open>#\<close> or \<^verbatim>\<open>;\<close>).
\<close>

definition tokenize :: "string \<Rightarrow> string list" where
  "tokenize text =
     (let tokens = re_split (strip text);
          tokens = filter (\<lambda>token. token \<noteq> [] \<and> \<not> isspace token) tokens;
          idx = concat (map (\<lambda>comment. if comment \<in> set tokens then [index tokens comment] else [])
                            [''#'', '';'']);
          idx = sort idx
      in (case idx of [] \<Rightarrow> tokens | i # _ \<Rightarrow> take i tokens))"

text \<open>\<^verbatim>\<open>tokens.pop(0)\<close>: an \<open>IndexError\<close> on the empty list.\<close>

definition pop0 :: "'a list \<Rightarrow> error + ('a \<times> 'a list)" where
  "pop0 xs = (case xs of [] \<Rightarrow> Inl IndexError | x # rest \<Rightarrow> Inr (x, rest))"

text \<open>
  The loop over the options before the name: \<^verbatim>\<open>-arch=\<close> and \<^verbatim>\<open>-i386\<close> add to the
  architecture set, every other option is dropped, and the next token becomes the name.
\<close>

fun skip_options :: "Arch \<Rightarrow> string \<Rightarrow> string list \<Rightarrow> error + (Arch \<times> string \<times> string list)" where
  "skip_options a nm [] =
     (if startswith_any nm IGNORE_OPTIONS then
        (case (if startswith nm ''-arch='' then add a (drop 6 nm)
               else if nm = ''-i386'' then add a ''i386'' else Inr a) of
           Inl err \<Rightarrow> Inl err
         | Inr a' \<Rightarrow> Inl IndexError)
      else Inr (a, nm, []))"
| "skip_options a nm (t # ts) =
     (if startswith_any nm IGNORE_OPTIONS then
        (case (if startswith nm ''-arch='' then add a (drop 6 nm)
               else if nm = ''-i386'' then add a ''i386'' else Inr a) of
           Inl err \<Rightarrow> Inl err
         | Inr a' \<Rightarrow> skip_options a' t ts)
      else Inr (a, nm, t # ts))"

text \<open>The loop that pops the arguments up to and including the closing parenthesis.\<close>

fun pop_args :: "string list \<Rightarrow> error + string list" where
  "pop_args [] = Inl IndexError"
| "pop_args (arg # tokens) = (if arg = '')'' then Inr tokens else pop_args tokens)"

text \<open>The forward target: \<^verbatim>\<open>module.symbol\<close>, or a bare symbol of the module itself.\<close>

definition parse_forwarder :: "string \<Rightarrow> error + (string \<times> string)" where
  "parse_forwarder token =
     (case split_max CHR ''.'' 2 token of
        [s] \<Rightarrow> Inr (case ALIAS_DLL ''self'' of None \<Rightarrow> ''self'' | Some m \<Rightarrow> m, s)
      | [m, s] \<Rightarrow> Inr (case ALIAS_DLL m of None \<Rightarrow> m | Some m' \<Rightarrow> m', s)
      | _ \<Rightarrow> Inl AssertionError)"

text \<open>
  \<^verbatim>\<open>init\<close> fills \<open>ordinal\<close>, \<open>callconv\<close>, \<open>name\<close>, \<open>arch\<close> and \<open>forwarder\<close> of the
  entry \<open>e\<close> (which \<^verbatim>\<open>__init__\<close> has created with empty fields). \<open>init_args\<close> is
  the part that drops an argument list, \<open>init_forwarder\<close> the part after it.
\<close>

definition init_args :: "string list \<Rightarrow> error + string list" where
  "init_args tokens =
     (if hd tokens = ''('' then
        (if '')'' \<in> set tokens then
           (case pop0 tokens of Inl err \<Rightarrow> Inl err | Inr (arg, tokens) \<Rightarrow> pop_args tokens)
         else Inl AssertionError)
      else Inr tokens)"

definition init_forwarder :: "SpecEntry \<Rightarrow> string list \<Rightarrow> error + SpecEntry" where
  "init_forwarder e tokens =
     (if tokens = [] then Inr e
      else if length tokens \<noteq> 1 then Inl AssertionError
      else (case parse_forwarder (hd tokens) of
              Inl err \<Rightarrow> Inl err
            | Inr fwd \<Rightarrow> Inr (e\<lparr>forwarder := Some fwd\<rparr>)))"

definition init :: "SpecEntry \<Rightarrow> string \<Rightarrow> error + SpecEntry" where
  "init e text =
     (case tokenize text of
        [] \<Rightarrow> Inl (InvalidSpecError text)
      | ord # tokens \<Rightarrow>
          if \<not> (ord = ''@'' \<or> isdigit ord) then Inl AssertionError
          else (case pop0 tokens of Inl err \<Rightarrow> Inl err | Inr (cc, tokens) \<Rightarrow>
               (case pop0 tokens of Inl err \<Rightarrow> Inl err | Inr (nm, tokens) \<Rightarrow>
               (case skip_options (arch e) nm tokens of Inl err \<Rightarrow> Inl err | Inr (a, nm, tokens) \<Rightarrow>
                  (let a = (if \<not> truthy a then Arch Arch_Any else a);
                       e = e\<lparr>ordinal := ord, callconv := Some cc, name := nm, arch := a\<rparr>
                   in if startswith nm ''-'' then Inl AssertionError
                      else if tokens = [] then Inr e
                      else (case init_args tokens of
                              Inl err \<Rightarrow> Inl err
                            | Inr tokens \<Rightarrow> init_forwarder e tokens))))))"

text \<open>
  \<^verbatim>\<open>__init__\<close>: an entry named \<^verbatim>\<open>@\<close> is exported by ordinal only and takes the symbol
  of its forward target, if it has one, as its name.
\<close>

definition new_SpecEntry :: "string \<Rightarrow> string \<Rightarrow> error + SpecEntry" where
  "new_SpecEntry text spec_nm =
     (case init \<lparr>spec = spec_nm, ordinal = [], callconv = None, name = [],
                  arch = Arch Arch_none, forwarder = None, noname = False\<rparr> text of
        Inl err \<Rightarrow> Inl err
      | Inr e \<Rightarrow>
          (let e = e\<lparr>noname := False\<rparr>
           in if name e = ''@'' then
                (let e = e\<lparr>noname := True\<rparr>
                 in (case forwarder e of
                       Some (m, s) \<Rightarrow> Inr (e\<lparr>name := s\<rparr>)
                     | None \<Rightarrow> Inr e))
              else Inr e))"

subsection \<open>class SpecFile: parsing and the queries\<close>

definition SpecFile_init :: "string \<Rightarrow> SpecFile" where
  "SpecFile_init nm = \<lparr>spec_name = nm, entries = [], estimate_size = 0\<rparr>"

text \<open>
  The loop of \<^verbatim>\<open>parse\<close> over the lines of the file: a line that raises
  \<open>InvalidSpecError\<close> is skipped, every other exception leaves the loop.
\<close>

fun parse_lines :: "string \<Rightarrow> string list \<Rightarrow> error + SpecEntry list" where
  "parse_lines spec_nm [] = Inr []"
| "parse_lines spec_nm (line # lines) =
     (if line \<noteq> [] then
        (case new_SpecEntry line spec_nm of
           Inl (InvalidSpecError text) \<Rightarrow> parse_lines spec_nm lines
         | Inl err \<Rightarrow> Inl err
         | Inr entry \<Rightarrow>
             (case parse_lines spec_nm lines of
                Inl err \<Rightarrow> Inl err
              | Inr es \<Rightarrow> Inr (entry # es)))
      else parse_lines spec_nm lines)"

definition forwarder_flag :: "SpecEntry \<Rightarrow> int" where
  "forwarder_flag e = (if forwarder e \<noteq> None then 1 else 0)"

definition parse :: "SpecFile \<Rightarrow> string list \<Rightarrow> error + (SpecFile \<times> int \<times> int)" where
  "parse sf lines =
     (case parse_lines (spec_name sf) lines of
        Inl err \<Rightarrow> Inl err
      | Inr es \<Rightarrow>
          (let sf = sf\<lparr>entries := entries sf @ es\<rparr>
           in Inr (sf, sum_list (map forwarder_flag (entries sf)), int (length (entries sf)))))"

definition add_functions :: "SpecFile \<Rightarrow> (string \<Rightarrow> SpecEntry list) \<Rightarrow> (string \<Rightarrow> SpecEntry list)" where
  "add_functions sf function_lookup =
     fold (\<lambda>entry fl. fl(name entry := fl (name entry) @ [entry])) (entries sf) function_lookup"

text \<open>\<^verbatim>\<open>find\<close>: the entries under a name, \<open>None\<close> where the index has no such key.\<close>

definition find_name :: "SpecFile \<Rightarrow> string \<Rightarrow> SpecEntry list option" where
  "find_name sf nm =
     (case filter (\<lambda>e. name e = nm) (entries sf) of [] \<Rightarrow> None | fs \<Rightarrow> Some fs)"

definition find_arch :: "SpecFile \<Rightarrow> string \<Rightarrow> Arch" where
  "find_arch sf nm =
     (case find_name sf nm of
        None \<Rightarrow> Arch Arch_none
      | Some functions \<Rightarrow> foldl (\<lambda>a func. Arch_add a (arch func)) (Arch Arch_none) functions)"

text \<open>
  The loop of \<^verbatim>\<open>find_callconv\<close>; \<open>cc\<close> is the local \<^verbatim>\<open>callconv\<close>, false in a
  condition when it is \<^verbatim>\<open>None\<close> or the empty string.
\<close>

definition falsy :: "string option \<Rightarrow> bool" where
  "falsy cc = (cc = None \<or> cc = Some [])"

fun find_callconv_loop :: "string option \<Rightarrow> SpecEntry list \<Rightarrow> error + string option" where
  "find_callconv_loop cc [] = Inr cc"
| "find_callconv_loop cc (func # functions) =
     (if falsy cc then find_callconv_loop (callconv func) functions
      else if cc \<noteq> callconv func then
        (if cc \<noteq> Some ''extern'' then find_callconv_loop (callconv func) functions
         else Inl AssertionError)
      else find_callconv_loop cc functions)"

definition find_callconv :: "SpecFile \<Rightarrow> string \<Rightarrow> error + string option" where
  "find_callconv sf nm =
     (case find_name sf nm of
        None \<Rightarrow> Inr None
      | Some functions \<Rightarrow> find_callconv_loop None functions)"

definition forwarder_module :: "SpecEntry \<Rightarrow> string option" where
  "forwarder_module e = (case forwarder e of None \<Rightarrow> None | Some (m, s) \<Rightarrow> Some m)"

text \<open>
  \<^verbatim>\<open>forwarder_modules\<close> counts, in a dictionary, how many entries forward to each
  module and sorts the keys by descending count. The dictionary is the association list
  \<open>count_modules\<close>; the order in which it yields its keys is not fixed by the language,
  so it is the parameter \<open>dict_keys\<close>, applied to the keys in order of insertion.
  \<^verbatim>\<open>sorted\<close> is stable, also under \<^verbatim>\<open>reverse=True\<close>.
\<close>

fun increment :: "string \<Rightarrow> (string \<times> int) list \<Rightarrow> (string \<times> int) list" where
  "increment k [] = [(k, 1)]"
| "increment k ((k', n) # kvs) =
     (if k = k' then (k', n + 1) # kvs else (k', n) # increment k kvs)"

fun count_modules :: "(string \<times> int) list \<Rightarrow> SpecEntry list \<Rightarrow> (string \<times> int) list" where
  "count_modules modules [] = modules"
| "count_modules modules (entry # es) =
     (case forwarder_module entry of
        None \<Rightarrow> count_modules modules es
      | Some m \<Rightarrow> if m \<noteq> [] then count_modules (increment m modules) es
                  else count_modules modules es)"

text \<open>\<^verbatim>\<open>modules[m]\<close> of the \<^verbatim>\<open>defaultdict(int)\<close>: zero for a key that is not there.\<close>

definition count_of :: "(string \<times> int) list \<Rightarrow> string \<Rightarrow> int" where
  "count_of modules m = (case map_of modules m of None \<Rightarrow> 0 | Some n \<Rightarrow> n)"

definition forwarder_modules :: "(string list \<Rightarrow> string list) \<Rightarrow> SpecFile \<Rightarrow> string list" where
  "forwarder_modules dict_keys sf =
     (let modules = count_modules [] (entries sf)
      in sort_key (\<lambda>m. - count_of modules m) (dict_keys (map fst modules)))"

subsection \<open>Pass 1: SpecEntry.resolve_forwarders\<close>

text \<open>
  The loop over \<^verbatim>\<open>try_modules\<close>. A candidate that the registry does not know fails
  the assertion; the first candidate whose aggregate architecture set is not empty gives
  the entry its architecture set, forward target and calling convention.
\<close>

fun try_modules_loop ::
  "SpecEntry \<Rightarrow> (string \<rightharpoonup> SpecFile) \<Rightarrow> string list \<Rightarrow> error + (SpecEntry \<times> int)" where
  "try_modules_loop e module_lookup [] = Inr (e, 0)"
| "try_modules_loop e module_lookup (module_name # try_modules) =
     (case module_lookup module_name of
        None \<Rightarrow> Inl AssertionError
      | Some module \<Rightarrow>
          (let fwd_arch = find_arch module (name e)
           in (case find_callconv module (name e) of
                 Inl err \<Rightarrow> Inl err
               | Inr cc \<Rightarrow>
                   if truthy fwd_arch then
                     Inr (e\<lparr>arch := fwd_arch, forwarder := Some (module_name, name e),
                            callconv := cc\<rparr>, 1)
                   else try_modules_loop e module_lookup try_modules)))"

definition resolve_forwarders ::
  "SpecEntry \<Rightarrow> (string \<rightharpoonup> SpecFile) \<Rightarrow> string list \<Rightarrow> error + (SpecEntry \<times> int)" where
  "resolve_forwarders e module_lookup try_modules =
     (if (case forwarder e of None \<Rightarrow> False | Some (m, s) \<Rightarrow> s \<noteq> name e)
      then Inl AssertionError
      else if noname e \<and> name e = ''@'' then Inr (e, 0)
      else try_modules_loop (e\<lparr>forwarder := None, arch := Arch Arch_none\<rparr>)
             module_lookup try_modules)"

text \<open>The loop of \<^verbatim>\<open>SpecFile.resolve_forwarders\<close> over the entries.\<close>

fun resolve_entries ::
  "(string \<rightharpoonup> SpecFile) \<Rightarrow> string list \<Rightarrow> SpecEntry list \<Rightarrow> error + (SpecEntry list \<times> int)" where
  "resolve_entries module_lookup modules [] = Inr ([], 0)"
| "resolve_entries module_lookup modules (entry # es) =
     (case resolve_forwarders entry module_lookup modules of
        Inl err \<Rightarrow> Inl err
      | Inr (entry', n) \<Rightarrow>
          (case resolve_entries module_lookup modules es of
             Inl err \<Rightarrow> Inl err
           | Inr (es', found) \<Rightarrow> Inr (entry' # es', n + found)))"

definition SpecFile_resolve_forwarders ::
  "(string list \<Rightarrow> string list) \<Rightarrow> SpecFile \<Rightarrow> (string \<rightharpoonup> SpecFile)
     \<Rightarrow> error + (SpecFile \<times> int \<times> int)" where
  "SpecFile_resolve_forwarders dict_keys sf module_lookup =
     (let modules = forwarder_modules dict_keys sf
      in (case resolve_entries module_lookup modules (entries sf) of
            Inl err \<Rightarrow> Inl err
          | Inr (es, found) \<Rightarrow> Inr (sf\<lparr>entries := es\<rparr>, found, int (length es))))"

subsection \<open>Pass 2: SpecEntry.extra_forwarders\<close>

text \<open>
  The loop that picks one module among several exporters: \<open>md\<close> and \<open>a\<close> are the
  locals \<^verbatim>\<open>mod\<close> and \<^verbatim>\<open>arch\<close>; a module replaces the current choice when its
  aggregate architecture set is greater under \<^verbatim>\<open>Arch.__gt__\<close>.
\<close>

fun pick_module ::
  "(string \<rightharpoonup> SpecFile) \<Rightarrow> string \<Rightarrow> string option \<Rightarrow> Arch \<Rightarrow> string list
     \<Rightarrow> error + (string option \<times> Arch)" where
  "pick_module module_lookup nm md a [] = Inr (md, a)"
| "pick_module module_lookup nm md a (module # modules) =
     (case module_lookup module of
        None \<Rightarrow> Inl KeyError
      | Some sf \<Rightarrow>
          (let mod_arch = find_arch sf nm
           in if md = None \<or> Arch_gt mod_arch a
              then pick_module module_lookup nm (Some module) mod_arch modules
              else pick_module module_lookup nm md a modules))"

text \<open>
  \<^verbatim>\<open>list(set(...))\<close> yields the distinct module names in an order that the language
  does not fix: it is the parameter \<open>set_list\<close>.
\<close>

definition adopt_module ::
  "SpecEntry \<Rightarrow> (string \<rightharpoonup> SpecFile) \<Rightarrow> string option \<Rightarrow> error + (SpecEntry \<times> int)" where
  "adopt_module e module_lookup md =
     (case md of
        None \<Rightarrow> Inl KeyError
      | Some m \<Rightarrow>
          (case module_lookup m of
             None \<Rightarrow> Inl KeyError
           | Some sf \<Rightarrow>
               (case find_callconv sf (name e) of
                  Inl err \<Rightarrow> Inl err
                | Inr cc \<Rightarrow>
                    Inr (e\<lparr>forwarder := Some (m, name e), arch := find_arch sf (name e),
                           callconv := cc\<rparr>, 1))))"

definition extra_forwarders ::
  "(string list \<Rightarrow> string list) \<Rightarrow> SpecEntry \<Rightarrow> (string \<Rightarrow> SpecEntry list)
     \<Rightarrow> (string \<rightharpoonup> SpecFile) \<Rightarrow> error + (SpecEntry \<times> int)" where
  "extra_forwarders set_list e function_lookup module_lookup =
     (if forwarder e \<noteq> None then Inr (e, 1)
      else if noname e \<and> name e = ''@'' then Inr (e, 0)
      else (let lst = function_lookup (name e)
            in if lst \<noteq> [] then
                 (let modules = set_list (map spec lst)
                  in if length modules > 1 then
                       (case pick_module module_lookup (name e) None (Arch Arch_none) modules of
                          Inl err \<Rightarrow> Inl err
                        | Inr (md, a) \<Rightarrow> adopt_module e module_lookup md)
                     else (case modules of
                             [] \<Rightarrow> Inl IndexError
                           | m # ms \<Rightarrow> adopt_module e module_lookup (Some m)))
               else Inr (e, 0)))"

fun extra_entries ::
  "(string list \<Rightarrow> string list) \<Rightarrow> (string \<Rightarrow> SpecEntry list) \<Rightarrow> (string \<rightharpoonup> SpecFile)
     \<Rightarrow> SpecEntry list \<Rightarrow> error + (SpecEntry list \<times> int)" where
  "extra_entries set_list function_lookup module_lookup [] = Inr ([], 0)"
| "extra_entries set_list function_lookup module_lookup (entry # es) =
     (case extra_forwarders set_list entry function_lookup module_lookup of
        Inl err \<Rightarrow> Inl err
      | Inr (entry', n) \<Rightarrow>
          (case extra_entries set_list function_lookup module_lookup es of
             Inl err \<Rightarrow> Inl err
           | Inr (es', found) \<Rightarrow> Inr (entry' # es', n + found)))"

definition SpecFile_extra_forwarders ::
  "(string list \<Rightarrow> string list) \<Rightarrow> SpecFile \<Rightarrow> (string \<Rightarrow> SpecEntry list)
     \<Rightarrow> (string \<rightharpoonup> SpecFile) \<Rightarrow> error + (SpecFile \<times> int \<times> int)" where
  "SpecFile_extra_forwarders set_list sf function_lookup module_lookup =
     (case extra_entries set_list function_lookup module_lookup (entries sf) of
        Inl err \<Rightarrow> Inl err
      | Inr (es, found) \<Rightarrow> Inr (sf\<lparr>entries := es\<rparr>, found, int (length es)))"

subsection \<open>SpecEntry.write and SpecFile.write\<close>

text \<open>
  The forward line, with the \<^verbatim>\<open>-arch=\<close> option unless the architecture set \<open>a\<close> is
  \<^verbatim>\<open>Arch.Any\<close>.
\<close>

definition forward_line ::
  "int list \<Rightarrow> string \<Rightarrow> string \<Rightarrow> string \<Rightarrow> string \<Rightarrow> string \<Rightarrow> string \<Rightarrow> Arch \<Rightarrow> string" where
  "forward_line keys ord cc opts nm args fwd a =
     (let opts = (if Arch_ne a (Arch Arch_Any) then opts @ '' -arch='' @ to_str keys a else opts)
      in ord @ '' '' @ cc @ opts @ '' '' @ nm @ args @ '' '' @ fwd @ newline)"

text \<open>
  \<^verbatim>\<open>SpecEntry.write\<close> returns the lines it writes, in order, and the size estimate.
  For an \<^verbatim>\<open>extern\<close> entry on x86_64 it first calls itself with x86_64 removed from the
  architecture set (and restores the set afterwards), then writes the x86_64 line.
\<close>

function SpecEntry_write :: "int list \<Rightarrow> SpecEntry \<Rightarrow> error + (string list \<times> int)" where
  "SpecEntry_write keys e =
     (let opts = (if noname e then '' -noname'' else [])
      in if name e = ''@'' \<and> \<not> ordinal e \<noteq> ''@'' then Inl AssertionError
         else
           (case forwarder e of
              None \<Rightarrow>
                Inr ([ordinal e @ '' stub'' @ opts @ '' ''
                        @ (if name e = ''@'' then ''Ordinal'' @ ordinal e else name e) @ newline],
                     0x1000)
            | Some (m, s) \<Rightarrow>
                if \<not> Arch_ne (arch e) (Arch Arch_none) then Inl AssertionError
                else
                  (let nm = (if \<not> noname e then name e else ''@'')
                   in if callconv e = Some ''extern'' then
                        (if has (arch e) Arch_x86_64 then
                           (case SpecEntry_write keys (e\<lparr>arch := Arch_sub (arch e) (Arch Arch_x86_64)\<rparr>) of
                              Inl err \<Rightarrow> Inl err
                            | Inr (lines, sz) \<Rightarrow>
                                Inr (lines @ [forward_line keys (ordinal e) ''extern'' opts nm []
                                                (m @ ''.__imp_'' @ s) (Arch Arch_x86_64)],
                                     sz + 0x100))
                         else
                           Inr ([forward_line keys (ordinal e) ''extern'' opts nm []
                                   (m @ ''._imp__'' @ s) (arch e)], 0x100))
                      else
                        Inr ([forward_line keys (ordinal e) ''stdcall'' opts nm ''()''
                                (m @ ''.'' @ s) (arch e)], 0x100))))"
  by pat_completeness auto
termination
  by (relation "measure (\<lambda>(keys, e). if has (arch e) Arch_x86_64 then 1 else 0)")
     (auto simp: has_def Arch_sub_def and.assoc)

declare SpecEntry_write.simps [simp del]

text \<open>
  The loop of \<^verbatim>\<open>SpecFile.write\<close>: \<open>written\<close> is the set of names already written,
  which starts as the blacklist. The lines are returned in the order written and the
  sizes are summed.
\<close>

fun write_entries :: "int list \<Rightarrow> string set \<Rightarrow> SpecEntry list \<Rightarrow> error + (string list \<times> int)" where
  "write_entries keys written [] = Inr ([], 0)"
| "write_entries keys written (entry # es) =
     (if name entry \<notin> written then
        (case SpecEntry_write keys entry of
           Inl err \<Rightarrow> Inl err
         | Inr (lines, sz) \<Rightarrow>
             (case write_entries keys (insert (name entry) written) es of
                Inl err \<Rightarrow> Inl err
              | Inr (lines', sz') \<Rightarrow> Inr (lines @ lines', sz + sz')))
      else write_entries keys written es)"

definition SpecFile_write :: "int list \<Rightarrow> SpecFile \<Rightarrow> error + (string list \<times> SpecFile)" where
  "SpecFile_write keys sf =
     (case write_entries keys (set FUNCTION_BLACKLIST) (entries sf) of
        Inl err \<Rightarrow> Inl err
      | Inr (lines, sz) \<Rightarrow> Inr (lines, sf\<lparr>estimate_size := sz\<rparr>))"

subsection \<open>The manifest: SpecFile.write_cmake and the loop of run\<close>

definition cmake_ignore :: "string list" where
  "cmake_ignore = [''ntdll'', ''kernel32'', ''self'', ''cfgmgr32'', ''wmi'']"

fun fwd_strings :: "string set \<Rightarrow> string list \<Rightarrow> string list" where
  "fwd_strings seen [] = []"
| "fwd_strings seen (x # forwarders) =
     (if \<not> (x \<in> seen \<or> x \<in> set cmake_ignore) then x # fwd_strings (insert x seen) forwarders
      else fwd_strings seen forwarders)"

text \<open>\<^verbatim>\<open>'{:8x}'.format(n)\<close>: lower-case hexadecimal, padded on the left with spaces.\<close>

fun hex :: "nat \<Rightarrow> string" where
  "hex n =
     (if n < 16 then [''0123456789abcdef'' ! n]
      else hex (n div 16) @ [''0123456789abcdef'' ! (n mod 16)])"

declare hex.simps [simp del]

definition format_8x :: "int \<Rightarrow> string" where
  "format_8x n =
     (let digits = (if n < 0 then ''-'' @ hex (nat (- n)) else hex (nat n))
      in replicate (8 - length digits) CHR '' '' @ digits)"

definition write_cmake ::
  "(string list \<Rightarrow> string list) \<Rightarrow> SpecFile \<Rightarrow> int \<Rightarrow> string \<times> int" where
  "write_cmake dict_keys sf baseaddress =
     (let forwarders = forwarder_modules dict_keys sf;
          fwds = join '' '' (fwd_strings {} forwarders)
      in (''add_apiset('' @ spec_name sf @ '' '' @ ''0x'' @ format_8x baseaddress @ '' ''
            @ fwds @ '')'' @ newline,
          estimate_size sf))"

text \<open>
  The loop at the end of \<^verbatim>\<open>run\<close>: every API-set gets the current base address, which
  then advances by the size estimate and is rounded up to a multiple of \<open>0x10000\<close>. The
  result lists, per API-set, the base address passed to \<^verbatim>\<open>write_cmake\<close> and the line.
\<close>

fun write_cmakelists ::
  "(string list \<Rightarrow> string list) \<Rightarrow> int \<Rightarrow> SpecFile list \<Rightarrow> (int \<times> string) list" where
  "write_cmakelists dict_keys baseaddress [] = []"
| "write_cmakelists dict_keys baseaddress (apiset # apisets) =
     (let (line, sz) = write_cmake dict_keys apiset baseaddress;
          baseaddress' = baseaddress + sz;
          baseaddress'' = baseaddress' + (0x10000 - baseaddress') mod 0x10000
      in (baseaddress, line) # write_cmakelists dict_keys baseaddress'' apisets)"

definition first_baseaddress :: int where
  "first_baseaddress = 0x60000000"

subsection \<open>Sample inputs\<close>

text \<open>The keys of \<^verbatim>\<open>TO_STR\<close> in the order of the source text.\<close>

definition TO_STR_keys :: "int list" where
  "TO_STR_keys = [Arch_i386, Arch_x86_64, Arch_arm, Arch_arm64]"

text \<open>
  A data symbol of an API-set, resolved to msvcrt for every architecture, and a data
  symbol without a name and with an automatic ordinal, as \<^verbatim>\<open>__init__\<close> makes it of
  the line below.
\<close>

definition sample_extern :: SpecEntry where
  "sample_extern =
     \<lparr>spec = ''api-ms-win-crt-runtime-l1-1-0'', ordinal = ''1'', callconv = Some ''extern'',
      name = ''_environ'', arch = Arch Arch_Any,
      forwarder = Some (''msvcrt'', ''_environ''), noname = False\<rparr>"

definition sample_unnamed_line :: string where
  "sample_unnamed_line = ''@ extern @ kernel32.@'' @ newline"

definition sample_unnamed :: SpecEntry where
  "sample_unnamed =
     \<lparr>spec = ''api-ms-win-core-misc-l1-1-0'', ordinal = ''@'', callconv = Some ''extern'',
      name = ''@'', arch = Arch Arch_Any,
      forwarder = Some (''kernel32'', ''@''), noname = True\<rparr>"

text \<open>A \<^verbatim>\<open>cdecl\<close> function of an API-set, resolved to msvcrt for every architecture.\<close>

definition sample_cdecl :: SpecEntry where
  "sample_cdecl =
     \<lparr>spec = ''api-ms-win-crt-utility-l1-1-0'', ordinal = ''2'', callconv = Some ''cdecl'',
      name = ''abs'', arch = Arch Arch_Any,
      forwarder = Some (''msvcrt'', ''abs''), noname = False\<rparr>"

text \<open>A blacklisted function of an API-set, resolved to msvcrt, and an empty API-set.\<close>

definition sample_rotl64 :: SpecEntry where
  "sample_rotl64 =
     \<lparr>spec = ''api-ms-win-crt-utility-l1-1-0'', ordinal = ''3'', callconv = Some ''cdecl'',
      name = ''_rotl64'', arch = Arch Arch_Any,
      forwarder = Some (''msvcrt'', ''_rotl64''), noname = False\<rparr>"

definition sample_utility :: SpecFile where
  "sample_utility =
     \<lparr>spec_name = ''api-ms-win-crt-utility-l1-1-0'', entries = [], estimate_size = 0\<rparr>"

text \<open>
  The records of a module that exports one name as a function first and as a data
  symbol second, and the same records in the other order.
\<close>

definition sample_function_then_data :: SpecFile where
  "sample_function_then_data =
     \<lparr>spec_name = ''msvcrt'',
      entries =
        [\<lparr>spec = ''msvcrt'', ordinal = ''1'', callconv = Some ''cdecl'', name = ''_environ'',
          arch = Arch Arch_i386, forwarder = None, noname = False\<rparr>,
         \<lparr>spec = ''msvcrt'', ordinal = ''2'', callconv = Some ''extern'', name = ''_environ'',
          arch = Arch Arch_x86_64, forwarder = None, noname = False\<rparr>],
      estimate_size = 0\<rparr>"

definition sample_data_then_function :: SpecFile where
  "sample_data_then_function =
     \<lparr>spec_name = ''msvcrt'',
      entries =
        [\<lparr>spec = ''msvcrt'', ordinal = ''1'', callconv = Some ''extern'', name = ''_environ'',
          arch = Arch Arch_i386, forwarder = None, noname = False\<rparr>,
         \<lparr>spec = ''msvcrt'', ordinal = ''2'', callconv = Some ''cdecl'', name = ''_environ'',
          arch = Arch Arch_x86_64, forwarder = None, noname = False\<rparr>],
      estimate_size = 0\<rparr>"

text \<open>
  A registry with kernel32 alone, and an API-set as it is parsed: one record forwarded
  to a symbol that kernel32 exports, one record without a forward target, and one
  record forwarded, for i386, to a symbol that kernel32 does not export.
  \<open>sample_sysinfo_pass1\<close> is the API-set after pass 1.
\<close>

definition sample_kernel32 :: SpecFile where
  "sample_kernel32 =
     \<lparr>spec_name = ''kernel32'',
      entries =
        [\<lparr>spec = ''kernel32'', ordinal = ''@'', callconv = Some ''stdcall'', name = ''Sleep'',
          arch = Arch Arch_Any, forwarder = None, noname = False\<rparr>,
         \<lparr>spec = ''kernel32'', ordinal = ''@'', callconv = Some ''stdcall'', name = ''GetTickCount'',
          arch = Arch Arch_Any, forwarder = None, noname = False\<rparr>],
      estimate_size = 0\<rparr>"

definition sample_module_lookup :: "string \<rightharpoonup> SpecFile" where
  "sample_module_lookup = map_of [(''kernel32'', sample_kernel32)]"

definition sample_sysinfo :: SpecFile where
  "sample_sysinfo =
     \<lparr>spec_name = ''api-ms-win-core-sysinfo-l1-1-0'',
      entries =
        [\<lparr>spec = ''api-ms-win-core-sysinfo-l1-1-0'', ordinal = ''@'', callconv = Some ''stdcall'',
          name = ''Sleep'', arch = Arch Arch_Any, forwarder = Some (''kernel32'', ''Sleep''),
          noname = False\<rparr>,
         \<lparr>spec = ''api-ms-win-core-sysinfo-l1-1-0'', ordinal = ''@'', callconv = Some ''stdcall'',
          name = ''GetTickCount'', arch = Arch Arch_Any, forwarder = None, noname = False\<rparr>,
         \<lparr>spec = ''api-ms-win-core-sysinfo-l1-1-0'', ordinal = ''@'', callconv = Some ''stdcall'',
          name = ''GetTickCount64'', arch = Arch Arch_i386,
          forwarder = Some (''kernel32'', ''GetTickCount64''), noname = False\<rparr>],
      estimate_size = 0\<rparr>"

definition sample_sysinfo_pass1 :: SpecFile where
  "sample_sysinfo_pass1 =
     \<lparr>spec_name = ''api-ms-win-core-sysinfo-l1-1-0'',
      entries =
        [\<lparr>spec = ''api-ms-win-core-sysinfo-l1-1-0'', ordinal = ''@'', callconv = Some ''stdcall'',
          name = ''Sleep'', arch = Arch Arch_Any, forwarder = Some (''kernel32'', ''Sleep''),
          noname = False\<rparr>,
         \<lparr>spec = ''api-ms-win-core-sysinfo-l1-1-0'', ordinal = ''@'', callconv = Some ''stdcall'',
          name = ''GetTickCount'', arch = Arch Arch_Any,
          forwarder = Some (''kernel32'', ''GetTickCount''), noname = False\<rparr>,
         \<lparr>spec = ''api-ms-win-core-sysinfo-l1-1-0'', ordinal = ''@'', callconv = Some ''stdcall'',
          name = ''GetTickCount64'', arch = Arch Arch_none,
          forwarder = None, noname = False\<rparr>],
      estimate_size = 0\<rparr>"

text \<open>
  A registry with kernel32 and ntdll, and an API-set as it is parsed: one record
  forwarded to kernel32, then two forwarded to ntdll, then two records without a forward
  target, the first exported by both modules and the second by kernel32 alone.
  \<open>sample_memory_pass1\<close> is the API-set after pass 1.
\<close>

definition sample_ntdll_memory :: SpecFile where
  "sample_ntdll_memory =
     \<lparr>spec_name = ''ntdll'',
      entries =
        [\<lparr>spec = ''ntdll'', ordinal = ''@'', callconv = Some ''stdcall'', name = ''RtlZeroMemory'',
          arch = Arch Arch_Any, forwarder = None, noname = False\<rparr>,
         \<lparr>spec = ''ntdll'', ordinal = ''@'', callconv = Some ''stdcall'', name = ''RtlFillMemory'',
          arch = Arch Arch_Any, forwarder = None, noname = False\<rparr>,
         \<lparr>spec = ''ntdll'', ordinal = ''@'', callconv = Some ''stdcall'', name = ''RtlMoveMemory'',
          arch = Arch Arch_Any, forwarder = None, noname = False\<rparr>],
      estimate_size = 0\<rparr>"

definition sample_kernel32_memory :: SpecFile where
  "sample_kernel32_memory =
     \<lparr>spec_name = ''kernel32'',
      entries =
        [\<lparr>spec = ''kernel32'', ordinal = ''@'', callconv = Some ''stdcall'', name = ''HeapFree'',
          arch = Arch Arch_Any, forwarder = None, noname = False\<rparr>,
         \<lparr>spec = ''kernel32'', ordinal = ''@'', callconv = Some ''stdcall'', name = ''RtlMoveMemory'',
          arch = Arch Arch_Any, forwarder = None, noname = False\<rparr>,
         \<lparr>spec = ''kernel32'', ordinal = ''@'', callconv = Some ''stdcall'', name = ''Sleep'',
          arch = Arch Arch_Any, forwarder = None, noname = False\<rparr>],
      estimate_size = 0\<rparr>"

definition sample_memory_lookup :: "string \<rightharpoonup> SpecFile" where
  "sample_memory_lookup =
     map_of [(''kernel32'', sample_kernel32_memory), (''ntdll'', sample_ntdll_memory)]"

definition sample_memory :: SpecFile where
  "sample_memory =
     \<lparr>spec_name = ''api-ms-win-core-memory-l1-1-0'',
      entries =
        [\<lparr>spec = ''api-ms-win-core-memory-l1-1-0'', ordinal = ''@'', callconv = Some ''stdcall'',
          name = ''HeapFree'', arch = Arch Arch_Any, forwarder = Some (''kernel32'', ''HeapFree''),
          noname = False\<rparr>,
         \<lparr>spec = ''api-ms-win-core-memory-l1-1-0'', ordinal = ''@'', callconv = Some ''stdcall'',
          name = ''RtlZeroMemory'', arch = Arch Arch_Any,
          forwarder = Some (''ntdll'', ''RtlZeroMemory''), noname = False\<rparr>,
         \<lparr>spec = ''api-ms-win-core-memory-l1-1-0'', ordinal = ''@'', callconv = Some ''stdcall'',
          name = ''RtlFillMemory'', arch = Arch Arch_Any,
          forwarder = Some (''ntdll'', ''RtlFillMemory''), noname = False\<rparr>,
         \<lparr>spec = ''api-ms-win-core-memory-l1-1-0'', ordinal = ''@'', callconv = Some ''stdcall'',
          name = ''RtlMoveMemory'', arch = Arch Arch_Any, forwarder = None, noname = False\<rparr>,
         \<lparr>spec = ''api-ms-win-core-memory-l1-1-0'', ordinal = ''@'', callconv = Some ''stdcall'',
          name = ''Sleep'', arch = Arch Arch_Any, forwarder = None, noname = False\<rparr>],
      estimate_size = 0\<rparr>"

definition sample_memory_pass1 :: SpecFile where
  "sample_memory_pass1 =
     \<lparr>spec_name = ''api-ms-win-core-memory-l1-1-0'',
      entries =
        [\<lparr>spec = ''api-ms-win-core-memory-l1-1-0'', ordinal = ''@'', callconv = Some ''stdcall'',
          name = ''HeapFree'', arch = Arch Arch_Any, forwarder = Some (''kernel32'', ''HeapFree''),
          noname = False\<rparr>,
         \<lparr>spec = ''api-ms-win-core-memory-l1-1-0'', ordinal = ''@'', callconv = Some ''stdcall'',
          name = ''RtlZeroMemory'', arch = Arch Arch_Any,
          forwarder = Some (''ntdll'', ''RtlZeroMemory''), noname = False\<rparr>,
         \<lparr>spec = ''api-ms-win-core-memory-l1-1-0'', ordinal = ''@'', callconv = Some ''stdcall'',
          name = ''RtlFillMemory'', arch = Arch Arch_Any,
          forwarder = Some (''ntdll'', ''RtlFillMemory''), noname = False\<rparr>,
         \<lparr>spec = ''api-ms-win-core-memory-l1-1-0'', ordinal = ''@'', callconv = Some ''stdcall'',
          name = ''RtlMoveMemory'', arch = Arch Arch_Any,
          forwarder = Some (''ntdll'', ''RtlMoveMemory''), noname = False\<rparr>,
         \<lparr>spec = ''api-ms-win-core-memory-l1-1-0'', ordinal = ''@'', callconv = Some ''stdcall'',
          name = ''Sleep'', arch = Arch Arch_Any,
          forwarder = Some (''kernel32'', ''Sleep''), noname = False\<rparr>],
      estimate_size = 0\<rparr>"

text \<open>
  Two modules that export \<^verbatim>\<open>wcslen\<close>: ntdll for arm64 only, msvcrt for i386, x86_64
  and arm; the two registries built from them; an unresolved API-set record of that name.
\<close>

definition sample_ntdll :: SpecFile where
  "sample_ntdll =
     \<lparr>spec_name = ''ntdll'',
      entries =
        [\<lparr>spec = ''ntdll'', ordinal = ''@'', callconv = Some ''cdecl'', name = ''wcslen'',
          arch = Arch Arch_arm64, forwarder = None, noname = False\<rparr>],
      estimate_size = 0\<rparr>"

definition sample_msvcrt :: SpecFile where
  "sample_msvcrt =
     \<lparr>spec_name = ''msvcrt'',
      entries =
        [\<lparr>spec = ''msvcrt'', ordinal = ''@'', callconv = Some ''cdecl'', name = ''wcslen'',
          arch = Arch (Arch_i386 OR Arch_x86_64 OR Arch_arm), forwarder = None, noname = False\<rparr>],
      estimate_size = 0\<rparr>"

definition sample_crt_lookup :: "string \<rightharpoonup> SpecFile" where
  "sample_crt_lookup = map_of [(''ntdll'', sample_ntdll), (''msvcrt'', sample_msvcrt)]"

definition sample_function_lookup :: "string \<Rightarrow> SpecEntry list" where
  "sample_function_lookup =
     add_functions sample_msvcrt (add_functions sample_ntdll (\<lambda>nm. []))"

definition sample_wcslen :: SpecEntry where
  "sample_wcslen =
     \<lparr>spec = ''api-ms-win-crt-string-l1-1-0'', ordinal = ''@'', callconv = Some ''cdecl'',
      name = ''wcslen'', arch = Arch Arch_none, forwarder = None, noname = False\<rparr>"

text \<open>An API-set record whose forward target names another symbol than the record.\<close>

definition sample_heap :: SpecFile where
  "sample_heap =
     \<lparr>spec_name = ''api-ms-win-core-heap-l1-1-0'',
      entries =
        [\<lparr>spec = ''api-ms-win-core-heap-l1-1-0'', ordinal = ''@'', callconv = Some ''stdcall'',
          name = ''HeapAlloc'', arch = Arch Arch_Any,
          forwarder = Some (''ntdll'', ''RtlAllocateHeap''), noname = False\<rparr>],
      estimate_size = 0\<rparr>"

text \<open>Lines of a spec file.\<close>

definition sample_bad_line :: string where
  "sample_bad_line = ''one stdcall HeapAlloc(long long long) kernel32.HeapAlloc'' @ newline"

definition sample_good_line :: string where
  "sample_good_line = ''2 stdcall HeapFree(long long ptr) kernel32.HeapFree'' @ newline"

definition sample_comment_line :: string where
  "sample_comment_line = ''# heap functions'' @ newline"

definition sample_noname_line :: string where
  "sample_noname_line = ''2 stdcall -noname @(long) kernel32.SetLastError'' @ newline"

section \<open>Properties\<close>

subsection \<open>Architecture sets\<close>

lemmas Arch_consts =
  Arch_none_def Arch_i386_def Arch_x86_64_def Arch_arm_def Arch_arm64_def Arch_Any_def

lemma count_ones_eq_0: "count_ones n = 0 \<longleftrightarrow> n = 0"
proof (induction n rule: count_ones.induct)
  case (1 n)
  show ?case
  proof (cases "n = 0")
    case True
    then show ?thesis by (simp add: count_ones.simps)
  next
    case False
    have "n mod 2 = 0 \<and> n div 2 = 0 \<longrightarrow> n = 0"
      by presburger
    with False 1 show ?thesis
      by (subst count_ones.simps) auto
  qed
qed

lemma truthy_iff: "truthy a \<longleftrightarrow> val a \<noteq> 0"
  by (simp add: truthy_def len_def count_ones_eq_0)

lemma dom_TO_STR: "dom TO_STR = {Arch_i386, Arch_x86_64, Arch_arm, Arch_arm64}"
  by (auto simp: TO_STR_def dom_def split: if_splits)

lemma filter_single:
  "distinct xs \<Longrightarrow> x \<in> set xs \<Longrightarrow> (\<And>y. y \<in> set xs \<Longrightarrow> P y = (y = x)) \<Longrightarrow> filter P xs = [x]"
proof (induction xs)
  case Nil
  then show ?case by simp
next
  case (Cons a xs)
  show ?case
  proof (cases "a = x")
    case True
    have "filter P xs = []"
      using Cons.prems True by (auto simp: filter_empty_conv)
    moreover have "P a" using Cons.prems True by simp
    ultimately show ?thesis using True by simp
  next
    case False
    then have "\<not> P a" using Cons.prems by simp
    moreover have "filter P xs = [x]"
      using Cons False by auto
    ultimately show ?thesis by simp
  qed
qed

lemma to_str_x86_64:
  assumes "distinct keys" "set keys = dom TO_STR"
  shows "to_str keys (Arch Arch_x86_64) = ''x86_64''"
proof -
  have "filter (\<lambda>v. v AND val (Arch Arch_x86_64) \<noteq> 0) keys = [Arch_x86_64]"
  proof (rule filter_single [OF assms(1)])
    show "Arch_x86_64 \<in> set keys" using assms(2) by (simp add: dom_TO_STR)
  next
    fix y assume "y \<in> set keys"
    then have "y \<in> {Arch_i386, Arch_x86_64, Arch_arm, Arch_arm64}"
      using assms(2) by (simp add: dom_TO_STR)
    then show "(y AND val (Arch Arch_x86_64) \<noteq> 0) = (y = Arch_x86_64)"
      by (auto simp: Arch_i386_def Arch_x86_64_def Arch_arm_def Arch_arm64_def)
  qed
  then show ?thesis
    by (simp add: to_str_def TO_STR_def Arch_i386_def Arch_x86_64_def)
qed

lemma to_str_without_x86_64:
  assumes "set keys = dom TO_STR"
  shows "to_str keys (Arch_sub a (Arch Arch_x86_64)) =
         to_str (filter (\<lambda>k. k \<noteq> Arch_x86_64) keys) a"
proof -
  have "(k AND val (Arch_sub a (Arch Arch_x86_64)) \<noteq> 0) = (k \<noteq> Arch_x86_64 \<and> k AND val a \<noteq> 0)"
    if "k \<in> set keys" for k
  proof -
    have k: "k \<in> {Arch_i386, Arch_x86_64, Arch_arm, Arch_arm64}"
      using that assms by (simp add: dom_TO_STR)
    have "k AND (val a AND NOT Arch_x86_64) = (k AND NOT Arch_x86_64) AND val a"
      by (simp add: ac_simps)
    moreover have "k AND NOT Arch_x86_64 = (if k = Arch_x86_64 then 0 else k)"
      using k by (auto simp: Arch_i386_def Arch_x86_64_def Arch_arm_def Arch_arm64_def)
    ultimately show ?thesis
      by (simp add: Arch_sub_def)
  qed
  then have "filter (\<lambda>k. k AND val (Arch_sub a (Arch Arch_x86_64)) \<noteq> 0) keys =
             filter (\<lambda>k. k AND val a \<noteq> 0) (filter (\<lambda>k. k \<noteq> Arch_x86_64) keys)"
    by (simp add: conj_commute cong: filter_cong)
  then show ?thesis
    by (simp add: to_str_def)
qed

lemma to_str_names:
  assumes "set keys = dom TO_STR"
  shows "to_str (filter (\<lambda>k. k \<noteq> Arch_x86_64) keys) a =
         join '',''
           (map (\<lambda>k. if k = Arch_i386 then ''i386'' else if k = Arch_arm then ''arm'' else ''arm64'')
                (filter (\<lambda>k. k \<noteq> Arch_x86_64 \<and> k AND val a \<noteq> 0) keys))"
proof -
  have "(case TO_STR k of None \<Rightarrow> [] | Some s \<Rightarrow> s) =
        (if k = Arch_i386 then ''i386'' else if k = Arch_arm then ''arm'' else ''arm64'')"
    if "k \<in> set keys" "k \<noteq> Arch_x86_64" for k
  proof -
    from that assms have "k \<in> {Arch_i386, Arch_arm, Arch_arm64}"
      by (auto simp: dom_TO_STR)
    then show ?thesis
      by (auto simp: TO_STR_def Arch_consts)
  qed
  then show ?thesis
    by (auto simp: to_str_def intro!: arg_cong [where f = "join '',''"] map_cong)
qed

subsection \<open>Parsing\<close>

lemma tokenize_Nil: "tokenize [] = []"
  by (simp add: tokenize_def strip_def)

lemma new_SpecEntry_bad_ordinal:
  assumes "tokenize line = ord # rest" "ord \<noteq> ''@''" "\<not> isdigit ord"
  shows "new_SpecEntry line sp = Inl AssertionError"
  using assms by (simp add: new_SpecEntry_def init_def)

lemma new_SpecEntry_no_tokens:
  assumes "tokenize line = []"
  shows "new_SpecEntry line sp = Inl (InvalidSpecError line)"
  using assms by (simp add: new_SpecEntry_def init_def)

lemma parse_lines_append:
  "parse_lines sp pre = Inr es \<Longrightarrow>
   parse_lines sp (pre @ ls) =
     (case parse_lines sp ls of Inl err \<Rightarrow> Inl err | Inr es' \<Rightarrow> Inr (es @ es'))"
proof (induction pre arbitrary: es)
  case Nil
  then show ?case by (simp split: sum.splits)
next
  case (Cons l pre)
  show ?case
  proof (cases "l = []")
    case True
    with Cons show ?thesis by simp
  next
    case False
    show ?thesis
    proof (cases "new_SpecEntry l sp")
      case (Inl err)
      with Cons.prems False obtain t where t: "err = InvalidSpecError t"
        by (cases err) auto
      with Cons Inl False show ?thesis by simp
    next
      case (Inr entry)
      with Cons.prems False obtain es0 where es0: "parse_lines sp pre = Inr es0" "es = entry # es0"
        by (auto split: sum.splits)
      from Cons.IH [OF es0(1)] Inr False es0 show ?thesis
        by (simp split: sum.splits)
    qed
  qed
qed

text \<open>A line without tokens raises the recoverable error, and \<^verbatim>\<open>parse\<close> skips it.\<close>

lemma zero_tokens_skipped:
  assumes "tokenize line = []"
  shows "parse_lines sp (line # post) = parse_lines sp post"
  using new_SpecEntry_no_tokens [OF assms] by simp

text \<open>
  C3 (as stated). A line whose ordinal is neither a number nor \<^verbatim>\<open>@\<close> would be skipped
  and the rest of the file parsed. The line fails the assertion of \<^verbatim>\<open>init\<close>, which
  \<^verbatim>\<open>parse\<close> does not catch: parsing the file raises \<open>AssertionError\<close>.
\<close>

theorem bad_ordinal_counterexample:
  "parse (SpecFile_init ''api-ms-win-core-heap-l1-1-0'')
     [''one stdcall HeapAlloc(long long long) kernel32.HeapAlloc'' @ newline,
      ''2 stdcall HeapFree(long long ptr) kernel32.HeapFree'' @ newline] = Inl AssertionError"
  by code_simp

text \<open>
  C3 (amended). For every input line whose first token is neither a decimal number nor
  \<^verbatim>\<open>@\<close>, constructing the record fails with \<open>AssertionError\<close>, not with the
  recoverable \<open>InvalidSpecError\<close> (which only a line without tokens raises); when the
  lines before it were accepted or skipped, \<^verbatim>\<open>parse\<close> of the file fails with that
  \<open>AssertionError\<close> and reads no further line.
\<close>

theorem bad_ordinal_aborts:
  assumes "tokenize line = ord # rest" and "ord \<noteq> ''@''" and "\<not> isdigit ord"
    and "parse_lines (spec_name sf) pre = Inr es"
  shows "new_SpecEntry line (spec_name sf) = Inl AssertionError \<and>
         parse sf (pre @ line # post) = Inl AssertionError"
proof -
  have e: "new_SpecEntry line (spec_name sf) = Inl AssertionError"
    by (rule new_SpecEntry_bad_ordinal [OF assms(1-3)])
  have "line \<noteq> []"
    using assms(1) tokenize_Nil by auto
  with e have "parse_lines (spec_name sf) (line # post) = Inl AssertionError"
    by simp
  with parse_lines_append [OF assms(4), of "line # post"] e show ?thesis
    by (simp add: parse_def)
qed

theorem bad_ordinal_aborts_witness:
  "tokenize sample_bad_line =
     [''one'', ''stdcall'', ''HeapAlloc'', ''('', ''long'', ''long'', ''long'', '')'',
      ''kernel32.HeapAlloc''] \<and>
   \<not> isdigit ''one'' \<and>
   parse_lines ''api-ms-win-core-heap-l1-1-0'' [sample_comment_line] = Inr [] \<and>
   new_SpecEntry sample_bad_line ''api-ms-win-core-heap-l1-1-0'' = Inl AssertionError \<and>
   parse (SpecFile_init ''api-ms-win-core-heap-l1-1-0'')
     ([sample_comment_line] @ sample_bad_line # [sample_good_line]) = Inl AssertionError"
proof -
  have h1: "tokenize sample_bad_line =
     ''one'' # [''stdcall'', ''HeapAlloc'', ''('', ''long'', ''long'', ''long'', '')'',
      ''kernel32.HeapAlloc'']"
    by code_simp
  have h2: "''one'' \<noteq> ''@''" by simp
  have h3: "\<not> isdigit ''one''"
    by (simp add: isdigit_def isdigit_char_def)
  have h4: "parse_lines (spec_name (SpecFile_init ''api-ms-win-core-heap-l1-1-0''))
              [sample_comment_line] = Inr []"
    by code_simp
  from bad_ordinal_aborts [OF h1 h2 h3 h4, of "[sample_good_line]"] h1 h3 h4 show ?thesis
    by (simp add: SpecFile_init_def)
qed

text \<open>Every parsed record has a non-empty architecture set.\<close>

lemma init_forwarder_arch: "init_forwarder e tokens = Inr e' \<Longrightarrow> arch e' = arch e"
  by (auto simp: init_forwarder_def split: if_splits sum.splits)

lemma init_truthy:
  assumes "init e text = Inr e'"
  shows "truthy (arch e')"
proof -
  have any: "truthy (Arch Arch_Any)"
    by (simp add: truthy_iff Arch_consts)
  with assms show ?thesis
    by (auto simp: init_def Let_def split: list.splits if_splits sum.splits prod.splits
        dest!: init_forwarder_arch)
qed

lemma new_SpecEntry_truthy:
  assumes "new_SpecEntry text sp = Inr e"
  shows "truthy (arch e)"
proof -
  from assms obtain e0 where "init \<lparr>spec = sp, ordinal = [], callconv = None, name = [],
       arch = Arch Arch_none, forwarder = None, noname = False\<rparr> text = Inr e0"
    and "arch e = arch e0"
    by (auto simp: new_SpecEntry_def Let_def split: sum.splits if_splits option.splits)
  with init_truthy show ?thesis by metis
qed

lemma parse_lines_truthy:
  "parse_lines sp lines = Inr es \<Longrightarrow> \<forall>e \<in> set es. truthy (arch e)"
proof (induction lines arbitrary: es)
  case Nil
  then show ?case by simp
next
  case (Cons l lines)
  show ?case
  proof (cases "l = []")
    case True
    with Cons show ?thesis by simp
  next
    case False
    show ?thesis
    proof (cases "new_SpecEntry l sp")
      case (Inl err)
      with Cons False show ?thesis
        by (cases err) auto
    next
      case (Inr entry)
      with Cons.prems False obtain es0 where "parse_lines sp lines = Inr es0" "es = entry # es0"
        by (auto split: sum.splits)
      with Cons.IH new_SpecEntry_truthy [OF Inr] show ?thesis by auto
    qed
  qed
qed

lemma parse_truthy:
  assumes "parse (SpecFile_init nm) lines = Inr (sf, fwds, n)"
  shows "\<forall>e \<in> set (entries sf). truthy (arch e)"
  using assms
  by (auto simp: parse_def SpecFile_init_def Let_def split: sum.splits dest: parse_lines_truthy)

subsection \<open>The queries of a module\<close>

lemma val_foldl_Arch_add:
  "val (foldl (\<lambda>a func. Arch_add a (arch func)) a0 fs) = 0 \<longleftrightarrow>
   val a0 = 0 \<and> (\<forall>f \<in> set fs. val (arch f) = 0)"
  by (induction fs arbitrary: a0) (auto simp: Arch_add_def or_eq_0_iff)

lemma find_name_None: "find_name sf nm = None \<longleftrightarrow> (\<forall>f \<in> set (entries sf). name f \<noteq> nm)"
proof -
  have "find_name sf nm = None \<longleftrightarrow> filter (\<lambda>e. name e = nm) (entries sf) = []"
    by (simp add: find_name_def split: list.splits)
  then show ?thesis
    by (simp add: filter_empty_conv)
qed

lemma find_name_Some:
  "find_name sf nm = Some fs \<Longrightarrow> fs = filter (\<lambda>e. name e = nm) (entries sf) \<and> fs \<noteq> []"
  by (auto simp: find_name_def split: list.splits)

lemma truthy_find_arch:
  "truthy (find_arch sf nm) \<longleftrightarrow> (\<exists>f \<in> set (entries sf). name f = nm \<and> truthy (arch f))"
proof (cases "find_name sf nm")
  case None
  moreover from None have "\<forall>f \<in> set (entries sf). name f \<noteq> nm"
    by (simp add: find_name_None)
  ultimately show ?thesis
    by (auto simp: find_arch_def truthy_iff Arch_none_def)
next
  case (Some fs)
  from find_name_Some [OF Some] show ?thesis
    using Some by (auto simp: find_arch_def truthy_iff val_foldl_Arch_add Arch_none_def)
qed

lemma truthy_find_arch_exports:
  assumes "\<forall>f \<in> set (entries sf). truthy (arch f)"
  shows "truthy (find_arch sf nm) \<longleftrightarrow> find_name sf nm \<noteq> None"
  using assms by (auto simp: truthy_find_arch find_name_None)

lemma find_callconv_loop_error: "find_callconv_loop cc fs = Inl err \<Longrightarrow> err = AssertionError"
  by (induction cc fs rule: find_callconv_loop.induct) (auto split: if_splits)

lemma find_callconv_error: "find_callconv sf nm = Inl err \<Longrightarrow> err = AssertionError"
  by (auto simp: find_callconv_def find_callconv_loop_error split: option.splits)

text \<open>
  What \<^verbatim>\<open>find_callconv\<close> returns is the convention of the last record of the name;
  the assertion fails exactly when an \<^verbatim>\<open>extern\<close> record is followed by a record of
  another convention.
\<close>

lemma find_callconv_loop_last:
  "find_callconv_loop cc fs = Inr r \<Longrightarrow> r = (if fs = [] then cc else callconv (last fs))"
  by (induction cc fs rule: find_callconv_loop.induct) (auto split: if_splits)

lemma find_callconv_loop_abort:
  "find_callconv_loop cc fs = Inl AssertionError \<longleftrightarrow>
     (fs \<noteq> [] \<and> cc = Some ''extern'' \<and> callconv (hd fs) \<noteq> Some ''extern'') \<or>
     (\<exists>i. Suc i < length fs \<and> callconv (fs ! i) = Some ''extern'' \<and>
          callconv (fs ! Suc i) \<noteq> Some ''extern'')"
proof (induction fs arbitrary: cc)
  case Nil
  then show ?case by simp
next
  case (Cons f fs)
  have shift: "(\<exists>i. Suc i < length (f # fs) \<and> callconv ((f # fs) ! i) = Some ''extern'' \<and>
                  callconv ((f # fs) ! Suc i) \<noteq> Some ''extern'') \<longleftrightarrow>
               (fs \<noteq> [] \<and> callconv f = Some ''extern'' \<and> callconv (hd fs) \<noteq> Some ''extern'') \<or>
               (\<exists>i. Suc i < length fs \<and> callconv (fs ! i) = Some ''extern'' \<and>
                  callconv (fs ! Suc i) \<noteq> Some ''extern'')"
    (is "?L \<longleftrightarrow> ?A \<or> ?B")
  proof
    assume ?L
    then obtain i where i: "Suc i < length (f # fs)" "callconv ((f # fs) ! i) = Some ''extern''"
      "callconv ((f # fs) ! Suc i) \<noteq> Some ''extern''" by blast
    show "?A \<or> ?B"
    proof (cases i)
      case 0
      with i have ?A by (cases fs) auto
      then show ?thesis ..
    next
      case (Suc j)
      with i have ?B by auto
      then show ?thesis ..
    qed
  next
    assume "?A \<or> ?B"
    then show ?L
    proof
      assume ?A
      then have "Suc 0 < length (f # fs) \<and> callconv ((f # fs) ! 0) = Some ''extern'' \<and>
                 callconv ((f # fs) ! Suc 0) \<noteq> Some ''extern''"
        by (cases fs) auto
      then show ?L by blast
    next
      assume ?B
      then obtain i where "Suc i < length fs" "callconv (fs ! i) = Some ''extern''"
        "callconv (fs ! Suc i) \<noteq> Some ''extern''" by blast
      then have "Suc (Suc i) < length (f # fs) \<and> callconv ((f # fs) ! Suc i) = Some ''extern'' \<and>
                 callconv ((f # fs) ! Suc (Suc i)) \<noteq> Some ''extern''"
        by simp
      then show ?L by blast
    qed
  qed
  have step: "find_callconv_loop cc (f # fs) = Inl AssertionError \<longleftrightarrow>
              (cc = Some ''extern'' \<and> callconv f \<noteq> Some ''extern'') \<or>
              find_callconv_loop (callconv f) fs = Inl AssertionError"
    by (auto simp: falsy_def)
  show ?case
    unfolding step Cons.IH shift by auto
qed

lemma find_callconv_last:
  "r = (case find_name sf nm of None \<Rightarrow> None | Some fs \<Rightarrow> callconv (last fs))"
  if "find_callconv sf nm = Inr r"
proof (cases "find_name sf nm")
  case None
  with that show ?thesis by (simp add: find_callconv_def)
next
  case (Some fs)
  with that have "find_callconv_loop None fs = Inr r"
    by (simp add: find_callconv_def)
  moreover have "fs \<noteq> []"
    using find_name_Some [OF Some] by blast
  ultimately have "r = callconv (last fs)"
    using find_callconv_loop_last [of None fs r] by simp
  with Some show ?thesis
    by simp
qed

text \<open>
  C8. A disagreement between two records of one name where one side is \<^verbatim>\<open>extern\<close>
  would abort the run whichever record comes first. With the function first and the
  data symbol second, \<^verbatim>\<open>find_callconv\<close> returns \<^verbatim>\<open>extern\<close> and nothing is raised; only
  the other order fails the assertion.
\<close>

theorem find_callconv_extern_second:
  "find_callconv sample_function_then_data ''_environ'' = Inr (Some ''extern'') \<and>
   find_callconv sample_data_then_function ''_environ'' = Inl AssertionError"
  by (simp add: find_callconv_def find_name_def falsy_def sample_function_then_data_def
      sample_data_then_function_def)

text \<open>
  The candidate list of pass 1: the non-empty module names that records of the file
  forward to, by descending number of such records.
\<close>

lemma set_increment: "fst ` set (increment k kvs) = insert k (fst ` set kvs)"
proof (induction kvs)
  case Nil
  then show ?case by simp
next
  case (Cons p kvs)
  obtain a b where p: "p = (a, b)" by (cases p)
  with Cons show ?case
    by (cases "k = a") (simp_all add: insert_commute)
qed

lemma set_count_modules:
  "fst ` set (count_modules acc es) =
     fst ` set acc \<union> {m. m \<noteq> [] \<and> (\<exists>e \<in> set es. forwarder_module e = Some m)}"
  by (induction es arbitrary: acc) (auto simp: set_increment split: option.splits)

lemma count_of_increment:
  "count_of (increment k kvs) k' = (if k' = k then count_of kvs k + 1 else count_of kvs k')"
  by (induction kvs) (auto simp: count_of_def)

lemma count_of_count_modules:
  "m \<noteq> [] \<Longrightarrow>
   count_of (count_modules acc es) m =
     count_of acc m + int (length (filter (\<lambda>e. forwarder_module e = Some m) es))"
  by (induction es arbitrary: acc) (auto simp: count_of_increment split: option.splits)

lemma forwarder_modules_set:
  assumes "set (dict_keys (map fst (count_modules [] (entries sf)))) =
           set (map fst (count_modules [] (entries sf)))"
  shows "set (forwarder_modules dict_keys sf) =
           {m. m \<noteq> [] \<and> (\<exists>e \<in> set (entries sf). forwarder_module e = Some m)}"
  using assms set_count_modules [of "[]" "entries sf"]
  by (simp add: forwarder_modules_def Let_def)

lemma forwarder_modules_descending:
  "sorted (map (\<lambda>m. - count_of (count_modules [] (entries sf)) m)
               (forwarder_modules dict_keys sf))"
  by (simp add: forwarder_modules_def Let_def)

lemma forwarder_modules_count:
  "m \<noteq> [] \<Longrightarrow>
   count_of (count_modules [] (entries sf)) m =
     int (length (filter (\<lambda>e. forwarder_module e = Some m) (entries sf)))"
  by (simp add: count_of_count_modules) (simp add: count_of_def)

lemma map_fst_increment:
  "map fst (increment k kvs) = (if k \<in> fst ` set kvs then map fst kvs else map fst kvs @ [k])"
proof (induction kvs)
  case Nil
  then show ?case by simp
next
  case (Cons p kvs)
  obtain a b where p: "p = (a, b)" by (cases p)
  with Cons show ?case
    by (cases "k = a") auto
qed

lemma distinct_increment:
  "distinct (map fst kvs) \<Longrightarrow> distinct (map fst (increment k kvs))"
  by (simp add: map_fst_increment)

lemma distinct_count_modules:
  "distinct (map fst acc) \<Longrightarrow> distinct (map fst (count_modules acc es))"
  by (induction es arbitrary: acc) (auto simp: distinct_increment split: option.splits)

lemma forwarder_module_eq: "forwarder_module e = map_option fst (forwarder e)"
  by (auto simp: forwarder_module_def split: option.splits)

lemma forwarder_modules_order:
  assumes dk: "\<forall>ks. distinct ks \<longrightarrow> set (dict_keys ks) = set ks \<and> distinct (dict_keys ks)"
  shows "set (forwarder_modules dict_keys sf) =
           {m. m \<noteq> [] \<and> (\<exists>e \<in> set (entries sf). map_option fst (forwarder e) = Some m)}"
    and "distinct (forwarder_modules dict_keys sf)"
    and "\<forall>j k. j \<le> k \<and> k < length (forwarder_modules dict_keys sf) \<longrightarrow>
           length (filter (\<lambda>e. map_option fst (forwarder e) = Some (forwarder_modules dict_keys sf ! k))
                          (entries sf))
           \<le> length (filter (\<lambda>e. map_option fst (forwarder e) = Some (forwarder_modules dict_keys sf ! j))
                            (entries sf))"
proof -
  let ?modules = "count_modules [] (entries sf)"
  let ?tm = "forwarder_modules dict_keys sf"
  have d: "distinct (map fst ?modules)"
    by (rule distinct_count_modules) simp
  from dk [rule_format, OF d] have s: "set (dict_keys (map fst ?modules)) = set (map fst ?modules)"
    and dd: "distinct (dict_keys (map fst ?modules))" by simp_all
  show set: "set ?tm = {m. m \<noteq> [] \<and> (\<exists>e \<in> set (entries sf). map_option fst (forwarder e) = Some m)}"
    using forwarder_modules_set [of dict_keys sf] s by (simp add: forwarder_module_eq)
  show "distinct ?tm"
    using dd by (simp add: forwarder_modules_def Let_def)
  show "\<forall>j k. j \<le> k \<and> k < length ?tm \<longrightarrow>
           length (filter (\<lambda>e. map_option fst (forwarder e) = Some (?tm ! k)) (entries sf))
           \<le> length (filter (\<lambda>e. map_option fst (forwarder e) = Some (?tm ! j)) (entries sf))"
  proof (intro allI impI)
    fix j k assume jk: "j \<le> k \<and> k < length ?tm"
    then have "?tm ! j \<in> set ?tm" "?tm ! k \<in> set ?tm" by simp_all
    then have ne: "?tm ! j \<noteq> []" "?tm ! k \<noteq> []" using set by auto
    from forwarder_modules_descending [of sf dict_keys] jk
    have "- count_of ?modules (?tm ! j) \<le> - count_of ?modules (?tm ! k)"
      by (simp add: sorted_iff_nth_mono)
    then show "length (filter (\<lambda>e. map_option fst (forwarder e) = Some (?tm ! k)) (entries sf))
           \<le> length (filter (\<lambda>e. map_option fst (forwarder e) = Some (?tm ! j)) (entries sf))"
      using ne by (simp add: forwarder_modules_count forwarder_module_eq)
  qed
qed

subsection \<open>Pass 1\<close>

lemma try_modules_loop_result:
  assumes "try_modules_loop e ml tm = Inr (e', n)"
  shows "(n = 1 \<and> (\<exists>k < length tm. \<exists>sf cc. ml (tm ! k) = Some sf
              \<and> truthy (find_arch sf (name e)) \<and> find_callconv sf (name e) = Inr cc
              \<and> e' = e\<lparr>arch := find_arch sf (name e), forwarder := Some (tm ! k, name e),
                        callconv := cc\<rparr>
              \<and> (\<forall>j < k. \<exists>sfj. ml (tm ! j) = Some sfj \<and> \<not> truthy (find_arch sfj (name e)))))
       \<or> (n = 0 \<and> e' = e
              \<and> (\<forall>j < length tm. \<exists>sfj. ml (tm ! j) = Some sfj \<and> \<not> truthy (find_arch sfj (name e))))"
  using assms
proof (induction tm)
  case Nil
  then show ?case by simp
next
  case (Cons m tm)
  from Cons.prems obtain sf where sf: "ml m = Some sf"
    by (auto split: option.splits)
  from Cons.prems sf obtain cc where cc: "find_callconv sf (name e) = Inr cc"
    by (auto simp: Let_def split: sum.splits)
  show ?case
  proof (cases "truthy (find_arch sf (name e))")
    case True
    with Cons.prems sf cc
    have "n = 1" and "e' = e\<lparr>arch := find_arch sf (name e), forwarder := Some (m, name e),
                        callconv := cc\<rparr>"
      by (auto simp: Let_def)
    with sf cc True show ?thesis
      by (intro disjI1 conjI exI [of _ 0]) auto
  next
    case False
    with Cons.prems sf cc have rest: "try_modules_loop e ml tm = Inr (e', n)"
      by (auto simp: Let_def)
    from Cons.IH [OF rest] show ?thesis
    proof (elim disjE conjE exE)
      fix k sf' cc'
      assume a: "n = 1" "k < length tm" "ml (tm ! k) = Some sf'" "truthy (find_arch sf' (name e))"
        "find_callconv sf' (name e) = Inr cc'"
        "e' = e\<lparr>arch := find_arch sf' (name e), forwarder := Some (tm ! k, name e), callconv := cc'\<rparr>"
        "\<forall>j<k. \<exists>sfj. ml (tm ! j) = Some sfj \<and> \<not> truthy (find_arch sfj (name e))"
      have "\<forall>j<Suc k. \<exists>sfj. ml ((m # tm) ! j) = Some sfj \<and> \<not> truthy (find_arch sfj (name e))"
        using a(7) sf False by (auto simp: nth_Cons split: nat.splits)
      with a show ?thesis
        by (intro disjI1 conjI exI [of _ "Suc k"] exI [of _ sf'] exI [of _ cc']) auto
    next
      assume a: "n = 0" "e' = e"
        "\<forall>j<length tm. \<exists>sfj. ml (tm ! j) = Some sfj \<and> \<not> truthy (find_arch sfj (name e))"
      have "\<forall>j<length (m # tm). \<exists>sfj. ml ((m # tm) ! j) = Some sfj \<and> \<not> truthy (find_arch sfj (name e))"
        using a(3) sf False by (auto simp: nth_Cons split: nat.splits)
      with a show ?thesis by blast
    qed
  qed
qed

lemma resolve_entries_list_all2:
  "resolve_entries ml mods es = Inr (es', found) \<Longrightarrow>
   list_all2 (\<lambda>e e'. \<exists>n. resolve_forwarders e ml mods = Inr (e', n)) es es'"
  by (induction es arbitrary: es' found) (auto split: sum.splits prod.splits)

lemma try_modules_loop_error: "try_modules_loop e ml tm = Inl err \<Longrightarrow> err = AssertionError"
  by (induction tm) (auto simp: Let_def find_callconv_error split: option.splits sum.splits if_splits)

lemma resolve_forwarders_error: "resolve_forwarders e ml tm = Inl err \<Longrightarrow> err = AssertionError"
  by (auto simp: resolve_forwarders_def try_modules_loop_error split: if_splits)

lemma resolve_entries_error: "resolve_entries ml mods es = Inl err \<Longrightarrow> err = AssertionError"
  by (induction es) (auto simp: resolve_forwarders_error split: sum.splits prod.splits)

lemma resolve_entries_abort:
  assumes "e \<in> set es" "resolve_forwarders e ml mods = Inl AssertionError"
  shows "resolve_entries ml mods es = Inl AssertionError"
  using assms
proof (induction es)
  case Nil
  then show ?case by simp
next
  case (Cons a es)
  show ?case
  proof (cases "resolve_forwarders a ml mods")
    case (Inl err)
    then show ?thesis by (simp add: resolve_forwarders_error [OF Inl])
  next
    case (Inr r)
    with Cons have "resolve_entries ml mods es = Inl AssertionError" by auto
    with Inr show ?thesis by (simp split: prod.splits)
  qed
qed

lemma SpecFile_resolve_forwarders_nth:
  assumes "SpecFile_resolve_forwarders dict_keys sf ml = Inr (sf', found, n)"
    and "i < length (entries sf)"
  shows "\<exists>r. resolve_forwarders (entries sf ! i) ml (forwarder_modules dict_keys sf) =
               Inr (entries sf' ! i, r)"
proof -
  from assms(1) obtain es where
    es: "resolve_entries ml (forwarder_modules dict_keys sf) (entries sf) = Inr (es, found)"
    and sf': "sf' = sf\<lparr>entries := es\<rparr>"
    by (auto simp: SpecFile_resolve_forwarders_def Let_def split: sum.splits prod.splits)
  from resolve_entries_list_all2 [OF es] assms(2) sf' show ?thesis
    by (auto simp: list_all2_conv_all_nth)
qed

lemma pass1_first_exporter:
  assumes "SpecFile_resolve_forwarders dict_keys sf ml = Inr (sf', found, n)"
    and "i < length (entries sf)"
    and "\<not> (noname (entries sf ! i) \<and> name (entries sf ! i) = ''@'')"
    and "forwarder (entries sf' ! i) = Some (M, s)"
    and "\<forall>sfm \<in> ran ml. \<forall>f \<in> set (entries sfm). truthy (arch f)"
  shows "s = name (entries sf ! i) \<and>
         (\<exists>k < length (forwarder_modules dict_keys sf).
            forwarder_modules dict_keys sf ! k = M \<and>
            (\<exists>sfm. ml M = Some sfm \<and> find_name sfm s \<noteq> None \<and>
                   arch (entries sf' ! i) = find_arch sfm s) \<and>
            (\<forall>j < k. \<exists>sfj. ml (forwarder_modules dict_keys sf ! j) = Some sfj \<and>
                           find_name sfj s = None))"
proof -
  let ?e = "entries sf ! i" and ?tm = "forwarder_modules dict_keys sf"
  let ?z = "?e\<lparr>forwarder := None, arch := Arch Arch_none\<rparr>"
  have ex: "truthy (find_arch sfm nm) \<longleftrightarrow> find_name sfm nm \<noteq> None" if "ml m = Some sfm" for m sfm nm
    using that assms(5) by (intro truthy_find_arch_exports) (auto simp: ran_def)
  from SpecFile_resolve_forwarders_nth [OF assms(1,2)] obtain r where
    "resolve_forwarders ?e ml ?tm = Inr (entries sf' ! i, r)" ..
  with assms(3) have loop: "try_modules_loop ?z ml ?tm = Inr (entries sf' ! i, r)"
    by (auto simp: resolve_forwarders_def split: if_splits)
  from try_modules_loop_result [OF loop] assms(4)
  obtain k sfm cc where k: "k < length ?tm" "ml (?tm ! k) = Some sfm"
    "truthy (find_arch sfm (name ?e))"
    "entries sf' ! i = ?z\<lparr>arch := find_arch sfm (name ?e), forwarder := Some (?tm ! k, name ?e),
                               callconv := cc\<rparr>"
    "\<forall>j < k. \<exists>sfj. ml (?tm ! j) = Some sfj \<and> \<not> truthy (find_arch sfj (name ?e))"
    by auto
  from k(4) assms(4) have M: "M = ?tm ! k" and s: "s = name ?e"
    by simp_all
  have "\<forall>j < k. \<exists>sfj. ml (?tm ! j) = Some sfj \<and> find_name sfj s = None"
    using k(5) ex s by fastforce
  moreover have "find_name sfm s \<noteq> None"
    using k(2,3) ex s by blast
  moreover have "arch (entries sf' ! i) = find_arch sfm s"
    using k(4) s by simp
  ultimately show ?thesis
    using k(1,2) M s by blast
qed

text \<open>
  C5. The candidate list \<^verbatim>\<open>forwarder_modules\<close> of an API-set holds, once each, the
  non-empty module names that its records forward to, by descending number of such
  records. When pass 1 of the API-set succeeds, a record that was searched (its name is
  not \<^verbatim>\<open>@\<close>) and has a forward target afterwards forwards its own name to a module
  \<open>M\<close> of that list: \<open>M\<close> is the first module of the list whose registry entry has a
  record of that name, and the record has taken that module's aggregate architecture
  set. (The records of the registry have non-empty architecture sets, as
  \<open>parse_truthy\<close> shows of every parsed file; \<open>dict_keys\<close> yields the keys of a
  dictionary once each, in any order.)
\<close>

theorem pass1_first_candidate:
  assumes "SpecFile_resolve_forwarders dict_keys sf ml = Inr (sf', found, n)"
    and "i < length (entries sf)"
    and "\<not> (noname (entries sf ! i) \<and> name (entries sf ! i) = ''@'')"
    and "forwarder (entries sf' ! i) = Some (M, s)"
    and "\<forall>sfm \<in> ran ml. \<forall>f \<in> set (entries sfm). truthy (arch f)"
    and "\<forall>ks. distinct ks \<longrightarrow> set (dict_keys ks) = set ks \<and> distinct (dict_keys ks)"
  shows "s = name (entries sf ! i) \<and>
         (\<exists>k < length (forwarder_modules dict_keys sf).
            forwarder_modules dict_keys sf ! k = M \<and>
            (\<exists>sfm. ml M = Some sfm \<and> find_name sfm s \<noteq> None \<and>
                   arch (entries sf' ! i) = find_arch sfm s) \<and>
            (\<forall>j < k. \<exists>sfj. ml (forwarder_modules dict_keys sf ! j) = Some sfj \<and>
                           find_name sfj s = None)) \<and>
         set (forwarder_modules dict_keys sf) =
           {m. m \<noteq> [] \<and> (\<exists>e \<in> set (entries sf). map_option fst (forwarder e) = Some m)} \<and>
         distinct (forwarder_modules dict_keys sf) \<and>
         (\<forall>j k. j \<le> k \<and> k < length (forwarder_modules dict_keys sf) \<longrightarrow>
            length (filter (\<lambda>e. map_option fst (forwarder e) = Some (forwarder_modules dict_keys sf ! k))
                           (entries sf))
            \<le> length (filter (\<lambda>e. map_option fst (forwarder e) = Some (forwarder_modules dict_keys sf ! j))
                             (entries sf)))"
proof -
  note a = pass1_first_exporter [OF assms(1-5)]
  note b = forwarder_modules_order [of dict_keys sf, OF assms(6)]
  show ?thesis
    by (rule conjI [OF conjunct1 [OF a] conjI [OF conjunct2 [OF a] conjI [OF b(1) conjI [OF b(2) b(3)]]]])
qed

theorem pass1_first_candidate_witness:
  "SpecFile_resolve_forwarders (\<lambda>ks. ks) sample_memory sample_memory_lookup =
     Inr (sample_memory_pass1, 5, 5) \<and>
   map (map_option fst \<circ> forwarder) (entries sample_memory) =
     [Some ''kernel32'', Some ''ntdll'', Some ''ntdll'', None, None] \<and>
   forwarder_modules (\<lambda>ks. ks) sample_memory = [''ntdll'', ''kernel32''] \<and>
   forwarder (entries sample_memory_pass1 ! 3) = Some (''ntdll'', ''RtlMoveMemory'') \<and>
   find_name sample_kernel32_memory ''RtlMoveMemory'' \<noteq> None \<and>
   forwarder (entries sample_memory_pass1 ! 4) = Some (''kernel32'', ''Sleep'') \<and>
   (\<exists>sfj. sample_memory_lookup ''ntdll'' = Some sfj \<and> find_name sfj ''Sleep'' = None) \<and>
   length (filter (\<lambda>e. map_option fst (forwarder e) = Some ''kernel32'') (entries sample_memory))
     \<le> length (filter (\<lambda>e. map_option fst (forwarder e) = Some ''ntdll'') (entries sample_memory))"
proof -
  let ?dk = "\<lambda>ks::string list. ks"
  have h1: "SpecFile_resolve_forwarders ?dk sample_memory sample_memory_lookup =
     Inr (sample_memory_pass1, 5, 5)"
    by code_simp
  have tm: "forwarder_modules ?dk sample_memory = [''ntdll'', ''kernel32'']"
    by code_simp
  have l3: "3 < length (entries sample_memory)" and l4: "4 < length (entries sample_memory)"
    by (simp_all add: sample_memory_def)
  have n3: "\<not> (noname (entries sample_memory ! 3) \<and> name (entries sample_memory ! 3) = ''@'')"
    and n4: "\<not> (noname (entries sample_memory ! 4) \<and> name (entries sample_memory ! 4) = ''@'')"
    by (simp_all add: sample_memory_def)
  have f3: "forwarder (entries sample_memory_pass1 ! 3) = Some (''ntdll'', ''RtlMoveMemory'')"
    and f4: "forwarder (entries sample_memory_pass1 ! 4) = Some (''kernel32'', ''Sleep'')"
    by (simp_all add: sample_memory_pass1_def)
  have h5: "\<forall>sfm \<in> ran sample_memory_lookup. \<forall>f \<in> set (entries sfm). truthy (arch f)"
    by (auto simp: sample_memory_lookup_def ran_def sample_kernel32_memory_def
        sample_ntdll_memory_def truthy_iff Arch_consts split: if_splits)
  have h6: "\<forall>ks. distinct ks \<longrightarrow> set (?dk ks) = set ks \<and> distinct (?dk ks)"
    by simp
  have fw: "map (map_option fst \<circ> forwarder) (entries sample_memory) =
     [Some ''kernel32'', Some ''ntdll'', Some ''ntdll'', None, None]"
    by (simp add: sample_memory_def)
  have ex: "find_name sample_kernel32_memory ''RtlMoveMemory'' \<noteq> None"
    by (simp add: find_name_def sample_kernel32_memory_def)
  note a = pass1_first_candidate [OF h1 l3 n3 f3 h5 h6]
  note b = pass1_first_candidate [OF h1 l4 n4 f4 h5 h6]
  have jk: "0 \<le> (1::nat) \<and> 1 < length (forwarder_modules ?dk sample_memory)"
    by (simp add: tm)
  from a [THEN conjunct2, THEN conjunct2, THEN conjunct2, THEN conjunct2, rule_format, OF jk]
  have le: "length (filter (\<lambda>e. map_option fst (forwarder e) = Some ''kernel32'')
                              (entries sample_memory))
     \<le> length (filter (\<lambda>e. map_option fst (forwarder e) = Some ''ntdll'') (entries sample_memory))"
    by (simp add: tm)
  from b [THEN conjunct2, THEN conjunct1] obtain k where
    k: "k < length (forwarder_modules ?dk sample_memory)"
      "forwarder_modules ?dk sample_memory ! k = ''kernel32''"
      "\<forall>j < k. \<exists>sfj. sample_memory_lookup (forwarder_modules ?dk sample_memory ! j) = Some sfj \<and>
                     find_name sfj ''Sleep'' = None"
    by blast
  from k(1,2) have "k = 1"
    by (cases k) (simp_all add: tm)
  with k(3) have sl: "\<exists>sfj. sample_memory_lookup ''ntdll'' = Some sfj \<and> find_name sfj ''Sleep'' = None"
    by (simp add: tm)
  from h1 fw tm f3 ex f4 sl le show ?thesis by blast
qed

text \<open>
  C4 (as stated). Pass 1 would leave a record that already has a forward target
  unchanged. The third record of the sample API-set forwards to kernel32 for i386;
  kernel32 does not export its name, and after pass 1 the record has no forward target
  and the empty architecture set.
\<close>

theorem pass1_existing_target_counterexample:
  "forwarder (entries sample_sysinfo ! 2) = Some (''kernel32'', ''GetTickCount64'') \<and>
   arch (entries sample_sysinfo ! 2) = Arch Arch_i386 \<and>
   SpecFile_resolve_forwarders (\<lambda>ks. ks) sample_sysinfo sample_module_lookup =
     Inr (sample_sysinfo_pass1, 2, 3) \<and>
   forwarder (entries sample_sysinfo_pass1 ! 2) = None \<and>
   arch (entries sample_sysinfo_pass1 ! 2) = Arch Arch_none"
proof -
  have "SpecFile_resolve_forwarders (\<lambda>ks. ks) sample_sysinfo sample_module_lookup =
     Inr (sample_sysinfo_pass1, 2, 3)"
    by code_simp
  then show ?thesis
    by (simp add: sample_sysinfo_def sample_sysinfo_pass1_def)
qed

text \<open>
  C4 (amended). Pass 1 operates on every record whose name is not \<^verbatim>\<open>@\<close>, whether or not
  it already has a forward target. When pass 1 of a file succeeds, a record that had a
  forward target is unchanged only if its name is \<^verbatim>\<open>@\<close>; otherwise its forward target
  and architecture set are computed anew from the candidate list: either it forwards
  its name to a candidate module with a non-empty aggregate architecture set for that
  name and has that set, or no candidate has one and the record is left with no
  forward target and the empty architecture set.
\<close>

theorem pass1_recomputes_target:
  assumes "SpecFile_resolve_forwarders dict_keys sf ml = Inr (sf', found, n)"
    and "i < length (entries sf)"
    and "forwarder (entries sf ! i) = Some (m, s)"
  shows "if noname (entries sf ! i) \<and> name (entries sf ! i) = ''@''
         then entries sf' ! i = entries sf ! i
         else (\<exists>M sfm. M \<in> set (forwarder_modules dict_keys sf) \<and> ml M = Some sfm \<and>
                 truthy (find_arch sfm (name (entries sf ! i))) \<and>
                 forwarder (entries sf' ! i) = Some (M, name (entries sf ! i)) \<and>
                 arch (entries sf' ! i) = find_arch sfm (name (entries sf ! i)))
              \<or> (forwarder (entries sf' ! i) = None \<and> arch (entries sf' ! i) = Arch Arch_none \<and>
                  (\<forall>M \<in> set (forwarder_modules dict_keys sf).
                     \<exists>sfm. ml M = Some sfm \<and> \<not> truthy (find_arch sfm (name (entries sf ! i)))))"
proof -
  let ?e = "entries sf ! i" and ?tm = "forwarder_modules dict_keys sf"
  let ?z = "?e\<lparr>forwarder := None, arch := Arch Arch_none\<rparr>"
  from SpecFile_resolve_forwarders_nth [OF assms(1,2)] obtain r where
    r: "resolve_forwarders ?e ml ?tm = Inr (entries sf' ! i, r)" ..
  show ?thesis
  proof (cases "noname ?e \<and> name ?e = ''@''")
    case True
    with r show ?thesis
      by (auto simp: resolve_forwarders_def split: if_splits)
  next
    case False
    with r have loop: "try_modules_loop ?z ml ?tm = Inr (entries sf' ! i, r)"
      by (auto simp: resolve_forwarders_def split: if_splits)
    from try_modules_loop_result [OF loop] show ?thesis
    proof (elim disjE conjE exE)
      fix k sfm cc
      assume a: "k < length ?tm" "ml (?tm ! k) = Some sfm" "truthy (find_arch sfm (name ?z))"
        "entries sf' ! i = ?z\<lparr>arch := find_arch sfm (name ?z), forwarder := Some (?tm ! k, name ?z),
                               callconv := cc\<rparr>"
      then have "?tm ! k \<in> set ?tm" by simp
      with a False show ?thesis
        by (auto intro!: exI [of _ "?tm ! k"])
    next
      assume a: "entries sf' ! i = ?z"
        "\<forall>j<length ?tm. \<exists>sfj. ml (?tm ! j) = Some sfj \<and> \<not> truthy (find_arch sfj (name ?z))"
      have "\<forall>M \<in> set ?tm. \<exists>sfm. ml M = Some sfm \<and> \<not> truthy (find_arch sfm (name ?e))"
        using a(2) by (auto simp: in_set_conv_nth)
      with a(1) False show ?thesis
        by auto
    qed
  qed
qed

theorem pass1_recomputes_target_witness:
  "SpecFile_resolve_forwarders (\<lambda>ks. ks) sample_sysinfo sample_module_lookup =
     Inr (sample_sysinfo_pass1, 2, 3) \<and>
   forwarder (entries sample_sysinfo ! 2) = Some (''kernel32'', ''GetTickCount64'') \<and>
   forwarder (entries sample_sysinfo_pass1 ! 2) = None \<and>
   arch (entries sample_sysinfo_pass1 ! 2) = Arch Arch_none \<and>
   (\<exists>sfm. sample_module_lookup ''kernel32'' = Some sfm \<and>
          \<not> truthy (find_arch sfm ''GetTickCount64''))"
proof -
  have h1: "SpecFile_resolve_forwarders (\<lambda>ks. ks) sample_sysinfo sample_module_lookup =
     Inr (sample_sysinfo_pass1, 2, 3)"
    by code_simp
  have h2: "2 < length (entries sample_sysinfo)"
    by (simp add: sample_sysinfo_def)
  have h3: "forwarder (entries sample_sysinfo ! 2) = Some (''kernel32'', ''GetTickCount64'')"
    by (simp add: sample_sysinfo_def)
  have e: "\<not> (noname (entries sample_sysinfo ! 2) \<and> name (entries sample_sysinfo ! 2) = ''@'')"
    "name (entries sample_sysinfo ! 2) = ''GetTickCount64''"
    by (simp_all add: sample_sysinfo_def)
  have f: "forwarder (entries sample_sysinfo_pass1 ! 2) = None"
    "arch (entries sample_sysinfo_pass1 ! 2) = Arch Arch_none"
    by (simp_all add: sample_sysinfo_pass1_def)
  have h7: "forwarder_modules (\<lambda>ks. ks) sample_sysinfo = [''kernel32'']"
    by code_simp
  from pass1_recomputes_target [OF h1 h2 h3] e f h7
  have "\<exists>sfm. sample_module_lookup ''kernel32'' = Some sfm \<and>
          \<not> truthy (find_arch sfm ''GetTickCount64'')"
    by simp
  with h1 h3 f show ?thesis by blast
qed

lemma new_SpecEntry_noname:
  assumes "new_SpecEntry text sp = Inr e" "noname e" "forwarder e = Some (m, s)"
  shows "name e = s"
  using assms
  by (auto simp: new_SpecEntry_def Let_def split: sum.splits if_splits option.splits)

text \<open>
  C10. A record that enters pass 1 with a forward target whose symbol differs from the
  record's name fails the assertion, and with it pass 1 of the whole file. A record
  constructed from a line with the name \<^verbatim>\<open>@\<close> and a forward target has that target's
  symbol as its name, so it passes.
\<close>

theorem pass1_symbol_assertion:
  "(e \<in> set (entries sf) \<and> forwarder e = Some (m, s) \<and> s \<noteq> name e \<longrightarrow>
      resolve_forwarders e ml (forwarder_modules dict_keys sf) = Inl AssertionError \<and>
      SpecFile_resolve_forwarders dict_keys sf ml = Inl AssertionError) \<and>
   (new_SpecEntry text sp = Inr e' \<and> noname e' \<and> forwarder e' = Some (m', s') \<longrightarrow>
      name e' = s')"
proof (intro conjI impI)
  assume a: "e \<in> set (entries sf) \<and> forwarder e = Some (m, s) \<and> s \<noteq> name e"
  then show r: "resolve_forwarders e ml (forwarder_modules dict_keys sf) = Inl AssertionError"
    by (simp add: resolve_forwarders_def)
  from a resolve_entries_abort [OF _ r]
  show "SpecFile_resolve_forwarders dict_keys sf ml = Inl AssertionError"
    by (simp add: SpecFile_resolve_forwarders_def Let_def)
next
  assume "new_SpecEntry text sp = Inr e' \<and> noname e' \<and> forwarder e' = Some (m', s')"
  then show "name e' = s'"
    using new_SpecEntry_noname by blast
qed

theorem pass1_symbol_assertion_witness:
  "hd (entries sample_heap) \<in> set (entries sample_heap) \<and>
   forwarder (hd (entries sample_heap)) = Some (''ntdll'', ''RtlAllocateHeap'') \<and>
   name (hd (entries sample_heap)) = ''HeapAlloc'' \<and>
   SpecFile_resolve_forwarders (\<lambda>ks. ks) sample_heap sample_crt_lookup = Inl AssertionError \<and>
   new_SpecEntry sample_noname_line ''shlwapi'' =
     Inr \<lparr>spec = ''shlwapi'', ordinal = ''2'', callconv = Some ''stdcall'', name = ''SetLastError'',
          arch = Arch Arch_Any, forwarder = Some (''kernel32'', ''SetLastError''), noname = True\<rparr>"
proof -
  let ?e = "hd (entries sample_heap)"
  let ?e' = "\<lparr>spec = ''shlwapi'', ordinal = ''2'', callconv = Some ''stdcall'', name = ''SetLastError'',
          arch = Arch Arch_Any, forwarder = Some (''kernel32'', ''SetLastError''), noname = True\<rparr>"
  have a: "?e \<in> set (entries sample_heap) \<and>
           forwarder ?e = Some (''ntdll'', ''RtlAllocateHeap'') \<and> ''RtlAllocateHeap'' \<noteq> name ?e"
    by (simp add: sample_heap_def)
  have b: "new_SpecEntry sample_noname_line ''shlwapi'' = Inr ?e'"
    by code_simp
  have c: "new_SpecEntry sample_noname_line ''shlwapi'' = Inr ?e' \<and> noname ?e' \<and>
           forwarder ?e' = Some (''kernel32'', ''SetLastError'')"
    using b by simp
  from pass1_symbol_assertion [of ?e sample_heap "''ntdll''" "''RtlAllocateHeap''"
      sample_crt_lookup "\<lambda>ks. ks" sample_noname_line "''shlwapi''" ?e' "''kernel32''" "''SetLastError''"]
    a c
  have "SpecFile_resolve_forwarders (\<lambda>ks. ks) sample_heap sample_crt_lookup = Inl AssertionError"
    by blast
  with a b show ?thesis
    by (simp add: sample_heap_def)
qed

subsection \<open>Pass 2\<close>

lemma pick_module_result:
  assumes "pick_module ml nm md a ms = Inr (md', a')"
    and "case md of None \<Rightarrow> True | Some M0 \<Rightarrow> \<exists>sf0. ml M0 = Some sf0 \<and> a = find_arch sf0 nm"
    and "md \<noteq> None \<or> ms \<noteq> []"
  shows "\<exists>M sf. md' = Some M \<and> ml M = Some sf \<and> a' = find_arch sf nm \<and>
           (M \<in> set ms \<or> md = Some M) \<and>
           (md \<noteq> None \<longrightarrow> val a \<le> val a') \<and>
           (\<forall>M' \<in> set ms. \<exists>sf'. ml M' = Some sf' \<and> val (find_arch sf' nm) \<le> val a')"
  using assms
proof (induction ms arbitrary: md a)
  case Nil
  then show ?case by (auto split: option.splits)
next
  case (Cons m ms)
  from Cons.prems(1) obtain sf where sf: "ml m = Some sf"
    by (auto split: option.splits)
  show ?case
  proof (cases "md = None \<or> Arch_gt (find_arch sf nm) a")
    case True
    with Cons.prems(1) sf
    have rest: "pick_module ml nm (Some m) (find_arch sf nm) ms = Inr (md', a')"
      by (auto simp: Let_def)
    from Cons.IH [OF rest] sf obtain M sfM where
      M: "md' = Some M" "ml M = Some sfM" "a' = find_arch sfM nm" "M \<in> set ms \<or> m = M"
      "val (find_arch sf nm) \<le> val a'"
      "\<forall>M' \<in> set ms. \<exists>sf'. ml M' = Some sf' \<and> val (find_arch sf' nm) \<le> val a'"
      by auto
    have "md \<noteq> None \<longrightarrow> val a \<le> val a'"
      using True M(5) by (auto simp: Arch_gt_def)
    with M sf show ?thesis by auto
  next
    case False
    with Cons.prems(1) sf
    have rest: "pick_module ml nm md a ms = Inr (md', a')"
      by (auto simp: Let_def)
    from False have md: "md \<noteq> None" and le: "val (find_arch sf nm) \<le> val a"
      by (auto simp: Arch_gt_def)
    from Cons.IH [OF rest Cons.prems(2)] md obtain M sfM where
      M: "md' = Some M" "ml M = Some sfM" "a' = find_arch sfM nm" "M \<in> set ms \<or> md = Some M"
      "val a \<le> val a'"
      "\<forall>M' \<in> set ms. \<exists>sf'. ml M' = Some sf' \<and> val (find_arch sf' nm) \<le> val a'"
      by auto
    with sf le show ?thesis by auto
  qed
qed

text \<open>
  C1 (as stated). Among several exporters pass 2 would pick the module whose aggregate
  architecture set has the most members. ntdll exports \<^verbatim>\<open>wcslen\<close> for one architecture
  (arm64), msvcrt for three (i386, x86_64, arm); in either order of the two modules
  pass 2 picks ntdll.
\<close>

theorem pass2_cardinality_counterexample:
  "extra_forwarders remdups sample_wcslen sample_function_lookup sample_crt_lookup =
     Inr (sample_wcslen\<lparr>forwarder := Some (''ntdll'', ''wcslen''), arch := Arch Arch_arm64\<rparr>, 1) \<and>
   extra_forwarders (\<lambda>ks. rev (remdups ks)) sample_wcslen sample_function_lookup sample_crt_lookup =
     Inr (sample_wcslen\<lparr>forwarder := Some (''ntdll'', ''wcslen''), arch := Arch Arch_arm64\<rparr>, 1) \<and>
   len (find_arch sample_ntdll ''wcslen'') = 1 \<and>
   len (find_arch sample_msvcrt ''wcslen'') = 3"
  by code_simp

text \<open>
  C1 (amended). In pass 2, for every record still unresolved whose name is exported by
  more than one distinct module, the resolver selects a module whose aggregate
  architecture set has the greatest value as a bit mask (i386 = 1, x86_64 = 2, arm = 4,
  arm64 = 8): \<^verbatim>\<open>Arch.__gt__\<close> compares the integer values, not the cardinalities. The
  record takes that module's aggregate architecture set and forwards its name to it.
  (\<open>set_list\<close> lists the distinct module names once each, in any order.)
\<close>

theorem pass2_greatest_value:
  assumes "forwarder e = None"
    and "\<not> (noname e \<and> name e = ''@'')"
    and "distinct (set_list (map spec (function_lookup (name e))))"
    and "set (set_list (map spec (function_lookup (name e)))) = spec ` set (function_lookup (name e))"
    and "1 < card (spec ` set (function_lookup (name e)))"
    and "extra_forwarders set_list e function_lookup ml = Inr (e', n)"
  shows "\<exists>M sf. M \<in> spec ` set (function_lookup (name e)) \<and> ml M = Some sf \<and>
           forwarder e' = Some (M, name e) \<and> arch e' = find_arch sf (name e) \<and>
           (\<forall>M' \<in> spec ` set (function_lookup (name e)). \<exists>sf'. ml M' = Some sf' \<and>
              val (find_arch sf' (name e)) \<le> val (find_arch sf (name e)))"
proof -
  let ?modules = "set_list (map spec (function_lookup (name e)))"
  have len: "1 < length ?modules"
    using assms(3,4,5) distinct_card [of ?modules] by simp
  have lst: "function_lookup (name e) \<noteq> []"
    using assms(5) by auto
  from assms(1,2,6) lst len obtain md a where
    pick: "pick_module ml (name e) None (Arch Arch_none) ?modules = Inr (md, a)"
    and adopt: "adopt_module e ml md = Inr (e', n)"
    by (auto simp: extra_forwarders_def Let_def split: sum.splits prod.splits if_splits)
  from len have "?modules \<noteq> []" by auto
  with pick_module_result [OF pick] obtain M sf where
    M: "md = Some M" "ml M = Some sf" "M \<in> set ?modules"
    "\<forall>M' \<in> set ?modules. \<exists>sf'. ml M' = Some sf' \<and> val (find_arch sf' (name e)) \<le> val a"
    "a = find_arch sf (name e)"
    by auto
  from adopt M(1,2) have "forwarder e' = Some (M, name e)" "arch e' = find_arch sf (name e)"
    by (auto simp: adopt_module_def split: sum.splits)
  with M assms(4) show ?thesis
    by auto
qed

theorem pass2_greatest_value_witness:
  "forwarder sample_wcslen = None \<and>
   map spec (sample_function_lookup ''wcslen'') = [''ntdll'', ''msvcrt''] \<and>
   extra_forwarders remdups sample_wcslen sample_function_lookup sample_crt_lookup =
     Inr (sample_wcslen\<lparr>forwarder := Some (''ntdll'', ''wcslen''), arch := Arch Arch_arm64\<rparr>, 1) \<and>
   val (find_arch sample_msvcrt ''wcslen'') \<le> val (find_arch sample_ntdll ''wcslen'')"
proof -
  let ?e' = "sample_wcslen\<lparr>forwarder := Some (''ntdll'', ''wcslen''), arch := Arch Arch_arm64\<rparr>"
  have nm: "name sample_wcslen = ''wcslen''"
    by (simp add: sample_wcslen_def)
  have fl: "map spec (sample_function_lookup ''wcslen'') = [''ntdll'', ''msvcrt'']"
    by code_simp
  have h1: "forwarder sample_wcslen = None"
    and h2: "\<not> (noname sample_wcslen \<and> name sample_wcslen = ''@'')"
    by (simp_all add: sample_wcslen_def)
  have h3: "distinct (remdups (map spec (sample_function_lookup (name sample_wcslen))))"
    by simp
  have h4: "set (remdups (map spec (sample_function_lookup (name sample_wcslen)))) =
            spec ` set (sample_function_lookup (name sample_wcslen))"
    by simp
  have "spec ` set (sample_function_lookup ''wcslen'') = {''ntdll'', ''msvcrt''}"
    using fl by (metis list.set(1) list.set(2) set_map)
  then have h5: "1 < card (spec ` set (sample_function_lookup (name sample_wcslen)))"
    by (simp add: nm)
  have h6: "extra_forwarders remdups sample_wcslen sample_function_lookup sample_crt_lookup =
              Inr (?e', 1)"
    by code_simp
  have ml: "sample_crt_lookup ''msvcrt'' = Some sample_msvcrt"
    "sample_crt_lookup ''ntdll'' = Some sample_ntdll"
    by (simp_all add: sample_crt_lookup_def)
  have "''msvcrt'' \<in> spec ` set (sample_function_lookup (name sample_wcslen))"
    using \<open>spec ` set (sample_function_lookup ''wcslen'') = {''ntdll'', ''msvcrt''}\<close> nm by simp
  with pass2_greatest_value [OF h1 h2 h3 h4 h5 h6] ml
  have "val (find_arch sample_msvcrt ''wcslen'') \<le> val (find_arch sample_ntdll ''wcslen'')"
    by (fastforce simp: nm)
  with h1 fl h6 show ?thesis by blast
qed

subsection \<open>Emission of one record\<close>

lemma write_extern_rest:
  assumes "forwarder e = Some (m, s)" "callconv e = Some ''extern''"
    "\<not> has (arch e) Arch_x86_64" "arch e \<noteq> Arch Arch_none"
    "\<not> (name e = ''@'' \<and> ordinal e = ''@'')"
  shows "SpecEntry_write keys e =
     Inr ([forward_line keys (ordinal e) ''extern'' (if noname e then '' -noname'' else [])
             (if noname e then ''@'' else name e) [] (m @ ''._imp__'' @ s) (arch e)], 0x100)"
  using assms
  by (subst SpecEntry_write.simps) (auto simp: Let_def Arch_ne_def Arch_eq_def Arch.expand)

lemma write_stdcall:
  assumes "forwarder e = Some (m, s)" "callconv e \<noteq> Some ''extern''"
    "arch e \<noteq> Arch Arch_none"
    "\<not> (name e = ''@'' \<and> ordinal e = ''@'')"
  shows "SpecEntry_write keys e =
     Inr ([forward_line keys (ordinal e) ''stdcall'' (if noname e then '' -noname'' else [])
             (if noname e then ''@'' else name e) ''()'' (m @ ''.'' @ s) (arch e)], 0x100)"
  using assms
  by (subst SpecEntry_write.simps) (auto simp: Let_def Arch_ne_def Arch_eq_def Arch.expand)

lemma write_extern_x86_64:
  assumes "forwarder e = Some (m, s)" "callconv e = Some ''extern''"
    "has (arch e) Arch_x86_64" "Arch_sub (arch e) (Arch Arch_x86_64) \<noteq> Arch Arch_none"
    "\<not> (name e = ''@'' \<and> ordinal e = ''@'')"
  shows "SpecEntry_write keys e =
     Inr ([forward_line keys (ordinal e) ''extern'' (if noname e then '' -noname'' else [])
             (if noname e then ''@'' else name e) [] (m @ ''._imp__'' @ s)
             (Arch_sub (arch e) (Arch Arch_x86_64)),
           forward_line keys (ordinal e) ''extern'' (if noname e then '' -noname'' else [])
             (if noname e then ''@'' else name e) [] (m @ ''.__imp_'' @ s) (Arch Arch_x86_64)],
          0x100 + 0x100)"
proof -
  let ?e' = "e\<lparr>arch := Arch_sub (arch e) (Arch Arch_x86_64)\<rparr>"
  have nz: "arch e \<noteq> Arch Arch_none"
    using assms(3) by (auto simp: has_def Arch_none_def)
  have no64: "\<not> has (arch ?e') Arch_x86_64"
    by (simp add: has_def Arch_sub_def and.assoc)
  have inner: "SpecEntry_write keys ?e' =
     Inr ([forward_line keys (ordinal e) ''extern'' (if noname e then '' -noname'' else [])
             (if noname e then ''@'' else name e) [] (m @ ''._imp__'' @ s)
             (Arch_sub (arch e) (Arch Arch_x86_64))], 0x100)"
    using write_extern_rest [of ?e' m s keys] assms no64 by simp
  show ?thesis
    using assms nz
    by (subst SpecEntry_write.simps) (auto simp: Let_def inner Arch_ne_def Arch_eq_def Arch.expand)
qed

lemma write_Inr_D:
  assumes "SpecEntry_write keys e = Inr (lines, sz)"
  shows "\<not> (name e = ''@'' \<and> ordinal e = ''@'')"
    and "forwarder e \<noteq> None \<Longrightarrow> arch e \<noteq> Arch Arch_none"
  using assms
  by (subst (asm) SpecEntry_write.simps;
      auto simp: Let_def Arch_ne_def Arch_eq_def Arch.expand split: if_splits option.splits)+

lemma write_extern_x86_64_Inr_D:
  assumes "SpecEntry_write keys e = Inr (lines, sz)" "forwarder e = Some (m, s)"
    "callconv e = Some ''extern''" "has (arch e) Arch_x86_64"
  shows "Arch_sub (arch e) (Arch Arch_x86_64) \<noteq> Arch Arch_none"
proof
  assume z: "Arch_sub (arch e) (Arch Arch_x86_64) = Arch Arch_none"
  let ?e' = "e\<lparr>arch := Arch_sub (arch e) (Arch Arch_x86_64)\<rparr>"
  have "SpecEntry_write keys ?e' = Inl AssertionError"
    using assms(2) z
    by (subst SpecEntry_write.simps) (auto simp: Let_def Arch_ne_def Arch_eq_def)
  then show False
    using assms
    by (subst (asm) (2) SpecEntry_write.simps)
       (auto simp: Let_def split: if_splits)
qed

lemma write_positive:
  assumes "SpecEntry_write keys e = Inr (lines, sz)"
  shows "0 < sz \<and> lines \<noteq> []"
proof (cases "forwarder e")
  case None
  with assms show ?thesis
    by (subst (asm) SpecEntry_write.simps) (auto simp: Let_def split: if_splits)
next
  case (Some fwd)
  obtain m s where fwd: "fwd = (m, s)" by (cases fwd)
  have ok: "\<not> (name e = ''@'' \<and> ordinal e = ''@'')" and nz: "arch e \<noteq> Arch Arch_none"
    using write_Inr_D [OF assms] Some by auto
  show ?thesis
  proof (cases "callconv e = Some ''extern''")
    case False
    from write_stdcall [OF _ False nz ok, of m s keys] Some fwd assms show ?thesis by auto
  next
    case True
    show ?thesis
    proof (cases "has (arch e) Arch_x86_64")
      case False
      from write_extern_rest [OF _ True False nz ok, of m s keys] Some fwd assms
      show ?thesis by auto
    next
      case h: True
      have "Arch_sub (arch e) (Arch Arch_x86_64) \<noteq> Arch Arch_none"
        using write_extern_x86_64_Inr_D [OF assms _ True h] Some fwd by auto
      from write_extern_x86_64 [OF _ True h this ok, of m s keys] Some fwd assms
      show ?thesis by auto
    qed
  qed
qed

lemma write_unnamed_auto_ordinal:
  "name e = ''@'' \<Longrightarrow> ordinal e = ''@'' \<Longrightarrow> SpecEntry_write keys e = Inl AssertionError"
  by (subst SpecEntry_write.simps) (simp add: Let_def)

text \<open>
  C6 (as stated). Every resolved \<^verbatim>\<open>extern\<close> record whose architecture set has x86_64
  and another architecture would be written as two lines. The line
  \<^verbatim>\<open>@ extern @ kernel32.@\<close> parses to such a record, whose name and ordinal are both
  \<^verbatim>\<open>@\<close>; both passes leave it as it is, and writing it fails the assertion on the
  ordinal: no line is written.
\<close>

theorem extern_unnamed_counterexample:
  "new_SpecEntry sample_unnamed_line ''api-ms-win-core-misc-l1-1-0'' = Inr sample_unnamed \<and>
   callconv sample_unnamed = Some ''extern'' \<and>
   has (arch sample_unnamed) Arch_x86_64 \<and> has (arch sample_unnamed) Arch_i386 \<and>
   resolve_forwarders sample_unnamed sample_module_lookup [''kernel32''] = Inr (sample_unnamed, 0) \<and>
   extra_forwarders remdups sample_unnamed (\<lambda>nm. []) sample_module_lookup = Inr (sample_unnamed, 1) \<and>
   SpecEntry_write TO_STR_keys sample_unnamed = Inl AssertionError"
  by code_simp

text \<open>
  C6 (amended). A resolved record with calling convention \<^verbatim>\<open>extern\<close> whose
  architecture set has x86_64 and something else is written as exactly two lines,
  unless its name and its ordinal are both \<^verbatim>\<open>@\<close>, when writing it fails an assertion.
  The first line is restricted to the record's architectures other than x86_64 (their
  names, joined by commas, in the order of \<open>keys\<close>) and forwards to
  \<^verbatim>\<open>module._imp__symbol\<close>; the second is restricted to x86_64 alone and forwards to
  \<^verbatim>\<open>module.__imp_symbol\<close>; each line adds \<open>0x100\<close> to the size estimate. (\<open>keys\<close>
  lists the keys of \<^verbatim>\<open>TO_STR\<close> once each, in any order.)
\<close>

theorem extern_x86_64_split:
  assumes "forwarder e = Some (m, s)" and "callconv e = Some ''extern''"
    and "has (arch e) Arch_x86_64"
    and "Arch_sub (arch e) (Arch Arch_x86_64) \<noteq> Arch Arch_none"
    and "distinct keys" and "set keys = dom TO_STR"
  shows "SpecEntry_write keys e =
     (if name e = ''@'' \<and> ordinal e = ''@'' then Inl AssertionError
      else Inr ([ordinal e @ '' extern'' @ (if noname e then '' -noname'' else [])
                   @ '' -arch=''
                   @ join '',''
                       (map (\<lambda>k. if k = Arch_i386 then ''i386''
                                  else if k = Arch_arm then ''arm'' else ''arm64'')
                            (filter (\<lambda>k. k \<noteq> Arch_x86_64 \<and> k AND val (arch e) \<noteq> 0) keys))
                   @ '' '' @ (if noname e then ''@'' else name e)
                   @ '' '' @ m @ ''._imp__'' @ s @ newline,
                 ordinal e @ '' extern'' @ (if noname e then '' -noname'' else [])
                   @ '' -arch=x86_64''
                   @ '' '' @ (if noname e then ''@'' else name e)
                   @ '' '' @ m @ ''.__imp_'' @ s @ newline],
                0x100 + 0x100))"
proof (cases "name e = ''@'' \<and> ordinal e = ''@''")
  case True
  then show ?thesis
    by (simp add: write_unnamed_auto_ordinal)
next
  case False
  have ne1: "Arch_ne (Arch_sub (arch e) (Arch Arch_x86_64)) (Arch Arch_Any)"
  proof -
    have "val (Arch_sub (arch e) (Arch Arch_x86_64)) AND Arch_x86_64 = 0"
      by (simp add: Arch_sub_def and.assoc)
    moreover have "Arch_Any AND Arch_x86_64 \<noteq> 0"
      by (simp add: Arch_consts)
    ultimately show ?thesis
      by (auto simp: Arch_ne_def Arch_eq_def)
  qed
  have ne2: "Arch_ne (Arch Arch_x86_64) (Arch Arch_Any)"
    by (simp add: Arch_ne_def Arch_eq_def Arch_consts)
  have names: "to_str keys (Arch_sub (arch e) (Arch Arch_x86_64)) =
         join '',''
           (map (\<lambda>k. if k = Arch_i386 then ''i386'' else if k = Arch_arm then ''arm'' else ''arm64'')
                (filter (\<lambda>k. k \<noteq> Arch_x86_64 \<and> k AND val (arch e) \<noteq> 0) keys))"
    by (simp only: to_str_without_x86_64 [OF assms(6)] to_str_names [OF assms(6)])
  have x64: "to_str keys (Arch Arch_x86_64) = ''x86_64''"
    by (rule to_str_x86_64 [OF assms(5,6)])
  show ?thesis
    using False ne1 ne2
    by (simp add: write_extern_x86_64 [OF assms(1-4) False] forward_line_def names x64)
qed

theorem extern_x86_64_split_witness:
  "SpecEntry_write TO_STR_keys sample_extern =
     Inr ([''1 extern -arch=i386,arm,arm64 _environ msvcrt._imp___environ'' @ newline,
           ''1 extern -arch=x86_64 _environ msvcrt.__imp__environ'' @ newline], 0x200)"
proof -
  have h1: "forwarder sample_extern = Some (''msvcrt'', ''_environ'')"
    and h2: "callconv sample_extern = Some ''extern''"
    and h3: "has (arch sample_extern) Arch_x86_64"
    and h4: "Arch_sub (arch sample_extern) (Arch Arch_x86_64) \<noteq> Arch Arch_none"
    by (simp_all add: sample_extern_def has_def Arch_sub_def Arch_consts)
  have h6: "distinct TO_STR_keys" and h7: "set TO_STR_keys = dom TO_STR"
    by (simp_all add: TO_STR_keys_def dom_TO_STR) (simp add: Arch_consts)
  from extern_x86_64_split [OF h1 h2 h3 h4 h6 h7] show ?thesis
    by (simp add: sample_extern_def TO_STR_keys_def Arch_consts)
qed

text \<open>
  C7 (as stated). The calling-convention field of the forward line would be the
  record's own convention. A resolved \<^verbatim>\<open>cdecl\<close> record is written with \<^verbatim>\<open>stdcall\<close>.
\<close>

theorem callconv_field_counterexample:
  "callconv sample_cdecl = Some ''cdecl'' \<and>
   SpecEntry_write TO_STR_keys sample_cdecl =
     Inr ([''2 stdcall abs() msvcrt.abs'' @ newline], 0x100)"
  by (simp add: sample_cdecl_def SpecEntry_write.simps forward_line_def Arch_ne_def Arch_eq_def
      Arch_consts)

text \<open>
  C7 (amended). For every resolved record that is written, the calling-convention
  field of each forward line is \<^verbatim>\<open>extern\<close> when the record's convention is
  \<^verbatim>\<open>extern\<close> and \<^verbatim>\<open>stdcall\<close> for every other convention; the argument list
  \<^verbatim>\<open>()\<close> is written in the second case only.
\<close>

theorem forward_line_callconv:
  assumes "forwarder e = Some (m, s)" and "SpecEntry_write keys e = Inr (lines, sz)"
  shows "lines \<noteq> [] \<and>
         (\<forall>l \<in> set lines. \<exists>fwd a.
            l = forward_line keys (ordinal e)
                  (if callconv e = Some ''extern'' then ''extern'' else ''stdcall'')
                  (if noname e then '' -noname'' else [])
                  (if noname e then ''@'' else name e)
                  (if callconv e = Some ''extern'' then [] else ''()'') fwd a)"
proof -
  have ok: "\<not> (name e = ''@'' \<and> ordinal e = ''@'')" and nz: "arch e \<noteq> Arch Arch_none"
    using write_Inr_D [OF assms(2)] assms(1) by auto
  show ?thesis
  proof (cases "callconv e = Some ''extern''")
    case False
    from write_stdcall [OF assms(1) False nz ok, of keys] assms(2) False
    show ?thesis by auto
  next
    case True
    show ?thesis
    proof (cases "has (arch e) Arch_x86_64")
      case False
      from write_extern_rest [OF assms(1) True False nz ok, of keys] assms(2) True
      show ?thesis by auto
    next
      case h: True
      have "Arch_sub (arch e) (Arch Arch_x86_64) \<noteq> Arch Arch_none"
        by (rule write_extern_x86_64_Inr_D [OF assms(2) assms(1) True h])
      from write_extern_x86_64 [OF assms(1) True h this ok, of keys] assms(2) True
      show ?thesis by auto
    qed
  qed
qed

theorem forward_line_callconv_witness:
  "forwarder sample_cdecl = Some (''msvcrt'', ''abs'') \<and>
   SpecEntry_write TO_STR_keys sample_cdecl = Inr ([''2 stdcall abs() msvcrt.abs'' @ newline], 0x100) \<and>
   (\<exists>fwd a. ''2 stdcall abs() msvcrt.abs'' @ newline =
      forward_line TO_STR_keys ''2'' ''stdcall'' [] ''abs'' ''()'' fwd a)"
proof -
  have h1: "forwarder sample_cdecl = Some (''msvcrt'', ''abs'')"
    by (simp add: sample_cdecl_def)
  have h2: "SpecEntry_write TO_STR_keys sample_cdecl =
              Inr ([''2 stdcall abs() msvcrt.abs'' @ newline], 0x100)"
    by (simp add: sample_cdecl_def SpecEntry_write.simps forward_line_def Arch_ne_def Arch_eq_def
        Arch_consts)
  from forward_line_callconv [OF h1 h2] have
    "\<exists>fwd a. ''2 stdcall abs() msvcrt.abs'' @ newline =
      forward_line TO_STR_keys ''2'' ''stdcall'' [] ''abs'' ''()'' fwd a"
    by (simp add: sample_cdecl_def)
  with h1 h2 show ?thesis by blast
qed

subsection \<open>Emission of a file\<close>

lemma write_entries_skip:
  "name e \<in> written \<Longrightarrow>
   write_entries keys written (pre @ e # post) = write_entries keys written (pre @ post)"
  by (induction pre arbitrary: written) (auto split: sum.splits)

text \<open>
  C2 (as stated). A blacklisted record would always be written as a stub line. A file
  whose only record is \<^verbatim>\<open>_rotl64\<close>, resolved to msvcrt, is written as no line at all.
\<close>

theorem blacklist_stub_counterexample:
  "name sample_rotl64 \<in> set FUNCTION_BLACKLIST \<and>
   SpecFile_write TO_STR_keys (sample_utility\<lparr>entries := [sample_rotl64]\<rparr>) =
     Inr ([], sample_utility\<lparr>entries := [sample_rotl64]\<rparr>)"
  by (simp add: SpecFile_write_def sample_rotl64_def sample_utility_def FUNCTION_BLACKLIST_def)

text \<open>
  C2 (amended). A record whose name is in the function blacklist is left out of the
  emitted file, whether or not it has a forward target: the lines written and the size
  estimate are those of the file without that record.
\<close>

theorem blacklist_omitted:
  assumes "name e \<in> set FUNCTION_BLACKLIST"
    and "SpecFile_write keys (sf\<lparr>entries := pre @ e # post\<rparr>) = Inr (lines, sf')"
  shows "SpecFile_write keys (sf\<lparr>entries := pre @ post\<rparr>) =
           Inr (lines, sf'\<lparr>entries := pre @ post\<rparr>)"
  using assms
  by (auto simp: SpecFile_write_def write_entries_skip split: sum.splits)

theorem blacklist_omitted_witness:
  "name sample_rotl64 \<in> set FUNCTION_BLACKLIST \<and>
   SpecFile_write TO_STR_keys (sample_utility\<lparr>entries := [sample_cdecl] @ sample_rotl64 # []\<rparr>) =
     Inr ([''2 stdcall abs() msvcrt.abs'' @ newline],
          sample_utility\<lparr>entries := [sample_cdecl] @ sample_rotl64 # [], estimate_size := 0x100\<rparr>) \<and>
   SpecFile_write TO_STR_keys (sample_utility\<lparr>entries := [sample_cdecl] @ []\<rparr>) =
     Inr ([''2 stdcall abs() msvcrt.abs'' @ newline],
          sample_utility\<lparr>entries := [sample_cdecl] @ [], estimate_size := 0x100\<rparr>)"
proof -
  have h1: "name sample_rotl64 \<in> set FUNCTION_BLACKLIST"
    by (simp add: sample_rotl64_def FUNCTION_BLACKLIST_def)
  have w: "SpecEntry_write TO_STR_keys sample_cdecl =
              Inr ([''2 stdcall abs() msvcrt.abs'' @ newline], 0x100)"
    by (simp add: sample_cdecl_def SpecEntry_write.simps forward_line_def Arch_ne_def Arch_eq_def
        Arch_consts)
  have n: "name sample_cdecl = ''abs''" "name sample_rotl64 = ''_rotl64''"
    by (simp_all add: sample_cdecl_def sample_rotl64_def)
  have h2: "SpecFile_write TO_STR_keys
              (sample_utility\<lparr>entries := [sample_cdecl] @ sample_rotl64 # []\<rparr>) =
            Inr ([''2 stdcall abs() msvcrt.abs'' @ newline],
                 sample_utility\<lparr>entries := [sample_cdecl] @ sample_rotl64 # [],
                                estimate_size := 0x100\<rparr>)"
    by (simp add: SpecFile_write_def w n FUNCTION_BLACKLIST_def sample_utility_def)
  from blacklist_omitted [OF h1 h2] h1 h2 show ?thesis
    by (simp add: sample_utility_def)
qed

text \<open>The size estimate of a file is never negative, and zero when no line is written.\<close>

lemma write_entries_estimate:
  "write_entries keys written es = Inr (lines, sz) \<Longrightarrow> 0 \<le> sz \<and> (sz = 0 \<longleftrightarrow> lines = [])"
proof (induction es arbitrary: written lines sz)
  case Nil
  then show ?case by auto
next
  case (Cons e es)
  show ?case
  proof (cases "name e \<in> written")
    case True
    with Cons show ?thesis by auto
  next
    case False
    with Cons.prems obtain l1 s1 l2 s2 where
      w: "SpecEntry_write keys e = Inr (l1, s1)"
      "write_entries keys (insert (name e) written) es = Inr (l2, s2)"
      "lines = l1 @ l2" "sz = s1 + s2"
      by (auto split: sum.splits prod.splits)
    from write_positive [OF w(1)] Cons.IH [OF w(2)] w(3,4) show ?thesis
      by auto
  qed
qed

lemma SpecFile_write_estimate:
  "SpecFile_write keys sf = Inr (lines, sf') \<Longrightarrow>
   0 \<le> estimate_size sf' \<and> (estimate_size sf' = 0 \<longleftrightarrow> lines = [])"
  by (auto simp: SpecFile_write_def split: sum.splits prod.splits dest: write_entries_estimate)

subsection \<open>Base addresses\<close>

lemma round_up_mod:
  assumes "0 < (m::int)"
  shows "m dvd b + (m - b) mod m" and "b \<le> b + (m - b) mod m" and "b + (m - b) mod m < b + m"
proof -
  have "(b + (m - b) mod m) mod m = (b + (m - b)) mod m"
    by (rule mod_add_right_eq)
  then show "m dvd b + (m - b) mod m"
    by (simp add: dvd_eq_mod_eq_0)
  show "b \<le> b + (m - b) mod m" and "b + (m - b) mod m < b + m"
    using assms by simp_all
qed

lemma write_cmakelists_length: "length (write_cmakelists dk b apisets) = length apisets"
  by (induction apisets arbitrary: b) (auto simp: Let_def split: prod.splits)

lemma write_cmakelists_hd:
  "apisets \<noteq> [] \<Longrightarrow> fst (write_cmakelists dk b apisets ! 0) = b"
  by (cases apisets) (auto simp: Let_def split: prod.splits)

lemma write_cmakelists_Suc:
  "Suc i < length apisets \<Longrightarrow>
   fst (write_cmakelists dk b apisets ! Suc i) =
     (let b' = fst (write_cmakelists dk b apisets ! i) + estimate_size (apisets ! i)
      in b' + (0x10000 - b') mod 0x10000)"
proof (induction apisets arbitrary: b i)
  case Nil
  then show ?case by simp
next
  case (Cons a apisets)
  show ?case
  proof (cases i)
    case 0
    with Cons.prems obtain a' rest where r: "apisets = a' # rest"
      by (cases apisets) auto
    show ?thesis
      using 0 r by (simp add: Let_def write_cmake_def split: prod.splits)
  next
    case (Suc j)
    with Cons show ?thesis
      by (simp add: Let_def split: prod.splits)
  qed
qed

lemma write_cmakelists_aligned:
  assumes "i < length apisets"
  shows "0x10000 dvd fst (write_cmakelists dk first_baseaddress apisets ! i)"
proof (cases i)
  case 0
  have "(0x60000000::int) = 0x6000 * 0x10000" by simp
  then have "(0x10000::int) dvd 0x60000000"
    by (metis dvd_triv_right)
  with 0 assms write_cmakelists_hd [of apisets dk first_baseaddress] show ?thesis
    by (auto simp: first_baseaddress_def)
next
  case (Suc j)
  have m: "(0::int) < 0x10000" by simp
  from Suc assms write_cmakelists_Suc [of j apisets dk first_baseaddress]
    round_up_mod(1) [OF m] show ?thesis
    by (simp only: Let_def)
qed

text \<open>
  C9 (as stated). The base addresses would be strictly increasing. An API-set whose
  only record is blacklisted is written as no line and has the size estimate zero, and
  the API-set after it gets the same base address.
\<close>

theorem base_address_counterexample:
  "SpecFile_write TO_STR_keys (sample_utility\<lparr>entries := [sample_rotl64]\<rparr>) =
     Inr ([], sample_utility\<lparr>entries := [sample_rotl64]\<rparr>) \<and>
   map fst (write_cmakelists (\<lambda>ks. ks) first_baseaddress
              [sample_utility\<lparr>entries := [sample_rotl64]\<rparr>, sample_sysinfo_pass1]) =
     [0x60000000, 0x60000000]"
  by (simp add: SpecFile_write_def sample_rotl64_def sample_utility_def FUNCTION_BLACKLIST_def
      write_cmake_def first_baseaddress_def Let_def)

text \<open>
  C9 (amended). The first API-set's base address is \<open>0x60000000\<close>, and for consecutive
  API-sets the second base address is the first plus the first's size estimate,
  rounded up to the next multiple of \<open>0x10000\<close> (the least multiple not below that
  sum). The base addresses never decrease, and one is strictly greater than the one
  before exactly when the size estimate of the API-set before is positive: an API-set
  that emits no line shares its base address with the next one. (Size estimates are
  never negative, see \<open>SpecFile_write_estimate\<close>.)
\<close>

theorem base_address_allocation:
  assumes "bases = map fst (write_cmakelists dict_keys first_baseaddress apisets)"
    and "Suc i < length apisets"
    and "0 \<le> estimate_size (apisets ! i)"
  shows "bases ! 0 = 0x60000000 \<and>
         0x10000 dvd bases ! Suc i \<and>
         bases ! i + estimate_size (apisets ! i) \<le> bases ! Suc i \<and>
         bases ! Suc i < bases ! i + estimate_size (apisets ! i) + 0x10000 \<and>
         bases ! i \<le> bases ! Suc i \<and>
         (bases ! i < bases ! Suc i \<longleftrightarrow> 0 < estimate_size (apisets ! i))"
proof -
  let ?w = "write_cmakelists dict_keys first_baseaddress apisets"
  let ?s = "estimate_size (apisets ! i)"
  have len: "length ?w = length apisets"
    by (rule write_cmakelists_length)
  have ne: "apisets \<noteq> []"
    using assms(2) by auto
  have b0: "bases ! 0 = 0x60000000"
    using assms(1) ne len write_cmakelists_hd [OF ne, of dict_keys first_baseaddress]
    by (simp add: first_baseaddress_def)
  have bi: "bases ! i = fst (?w ! i)" and bs: "bases ! Suc i = fst (?w ! Suc i)"
    using assms(1,2) len by simp_all
  have step: "bases ! Suc i = (bases ! i + ?s) + (0x10000 - (bases ! i + ?s)) mod 0x10000"
    unfolding bi bs using write_cmakelists_Suc [OF assms(2), of dict_keys first_baseaddress]
    by (simp only: Let_def)
  have m: "(0::int) < 0x10000" by simp
  note r = round_up_mod [OF m, of "bases ! i + ?s", folded step]
  have al: "0x10000 dvd bases ! i"
    unfolding bi using write_cmakelists_aligned [of i apisets dict_keys] assms(2) by simp
  have up: "bases ! i \<le> bases ! Suc i"
    using r(2) assms(3) by linarith
  have strict: "bases ! i < bases ! Suc i \<longleftrightarrow> 0 < ?s"
  proof (cases "0 < ?s")
    case True
    then show ?thesis using r(2) by linarith
  next
    case False
    with assms(3) have z: "?s = 0" by simp
    from al have "(0x10000::int) dvd 0x10000 - bases ! i"
      by (intro dvd_diff dvd_refl)
    then have "(0x10000 - bases ! i) mod 0x10000 = 0"
      by (rule dvd_imp_mod_0)
    with step z show ?thesis by simp
  qed
  from b0 r up strict show ?thesis
    by simp
qed

theorem base_address_allocation_witness:
  "Suc 0 < length [sample_utility\<lparr>entries := [sample_cdecl], estimate_size := 0x100\<rparr>,
                   sample_sysinfo_pass1] \<and>
   0 \<le> estimate_size (sample_utility\<lparr>entries := [sample_cdecl], estimate_size := 0x100\<rparr>) \<and>
   map fst (write_cmakelists (\<lambda>ks. ks) first_baseaddress
              [sample_utility\<lparr>entries := [sample_cdecl], estimate_size := 0x100\<rparr>,
               sample_sysinfo_pass1]) = [0x60000000, 0x60010000] \<and>
   (0x10000::int) dvd 0x60010000"
proof -
  let ?apisets = "[sample_utility\<lparr>entries := [sample_cdecl], estimate_size := 0x100\<rparr>,
                   sample_sysinfo_pass1]"
  have h2: "Suc 0 < length ?apisets" by simp
  have h3: "0 \<le> estimate_size (?apisets ! 0)" by simp
  have b: "map fst (write_cmakelists (\<lambda>ks. ks) first_baseaddress ?apisets) =
             [0x60000000, 0x60010000]"
    by (simp add: write_cmake_def Let_def first_baseaddress_def)
  from base_address_allocation [OF refl h2 h3, of "\<lambda>ks. ks"] b
  have "(0x10000::int) dvd 0x60010000"
    by simp
  with h2 h3 b show ?thesis
    by simp
qed

end
